theory Spec2Isabelle
  imports Main "HOL-Library.Sublist"
begin

section \<open>Python values used by the release pipeline\<close>

text \<open>
  The pipeline of \<^verbatim>\<open>src/main.py\<close> is embedded function by function. Python integers
  are \<open>int\<close>, Python strings are \<open>string\<close> (ASCII text is assumed: one \<open>char\<close> per
  character), every \<^verbatim>\<open>raise\<close> is a value \<open>Inl e\<close> of a sum type. The interpreter's
  configurable limit on the length of decimal conversions is not modelled.
\<close>

datatype py_error =
    FileNotFoundError
  | FunctionExtractionError
  | CalledProcessError
  | ValueError
  | IndexError
  | HTTPError
  | KeyError

type_synonym 'a result = "py_error + 'a"

text \<open>Characters for which \<^verbatim>\<open>str.isspace\<close> holds (the class \<^verbatim>\<open>\s\<close> of \<^verbatim>\<open>re\<close>).\<close>

definition is_space :: "char \<Rightarrow> bool" where
  "is_space c =
     (let n = (of_char c :: nat) in (9 \<le> n \<and> n \<le> 13) \<or> (28 \<le> n \<and> n \<le> 32))"

definition is_digit :: "char \<Rightarrow> bool" where
  "is_digit c = (let n = (of_char c :: nat) in 48 \<le> n \<and> n \<le> 57)"

definition digit_val :: "char \<Rightarrow> nat" where
  "digit_val c = of_char c - 48"

definition digit_char :: "nat \<Rightarrow> char" where
  "digit_char d = char_of (48 + d)"

text \<open>\<^verbatim>\<open>s.strip()\<close>, \<^verbatim>\<open>s.startswith(p)\<close>, \<^verbatim>\<open>s.count(c)\<close>.\<close>

definition py_strip :: "string \<Rightarrow> string" where
  "py_strip s = rev (dropWhile is_space (rev (dropWhile is_space s)))"

definition startswith :: "string \<Rightarrow> string \<Rightarrow> bool" where
  "startswith s p = (take (length p) s = p)"

definition count_char :: "string \<Rightarrow> char \<Rightarrow> int" where
  "count_char s c = int (length (filter (\<lambda>x. x = c) s))"

text \<open>\<^verbatim>\<open>s.split(sep)\<close> for a separator of one character: never the empty list.\<close>

fun split_on :: "char \<Rightarrow> string \<Rightarrow> string list" where
  "split_on c [] = [[]]"
| "split_on c (x # xs) =
     (if x = c then [] # split_on c xs
      else (let r = split_on c xs in (x # hd r) # tl r))"

text \<open>\<^verbatim>\<open>sep.join(parts)\<close> for the separator \<^verbatim>\<open>"."\<close>.\<close>

fun join_dots :: "string list \<Rightarrow> string" where
  "join_dots [] = []"
| "join_dots [c] = c"
| "join_dots (c # d # cs) = c @ CHR ''.'' # join_dots (d # cs)"

text \<open>
  \<^verbatim>\<open>int(s)\<close> on a string: surrounding whitespace is dropped, one sign is allowed, then
  decimal digits, where single underscores may stand between two digits. Anything
  else raises \<^verbatim>\<open>ValueError\<close>. The whitespace of the conversion is narrower than that
  of \<^verbatim>\<open>str.strip\<close>: the tab, the line feed, the vertical tab, the form feed, the
  carriage return and the space, but not the four separators from 28 to 31.
\<close>

definition is_int_space :: "char \<Rightarrow> bool" where
  "is_int_space c = (let n = (of_char c :: nat) in (9 \<le> n \<and> n \<le> 13) \<or> n = 32)"

definition int_strip :: "string \<Rightarrow> string" where
  "int_strip s = rev (dropWhile is_int_space (rev (dropWhile is_int_space s)))"

definition nat_of_digits :: "string \<Rightarrow> nat" where
  "nat_of_digits ds = foldl (\<lambda>acc c. 10 * acc + digit_val c) 0 ds"

fun digits_ok :: "string \<Rightarrow> bool" where
  "digits_ok [] = False"
| "digits_ok [c] = is_digit c"
| "digits_ok (c # d # cs) =
     (is_digit c \<and> (if d = CHR ''_'' then digits_ok cs else digits_ok (d # cs)))"

definition py_int :: "string \<Rightarrow> int result" where
  "py_int s =
     (let t = int_strip s;
          neg = (t \<noteq> [] \<and> hd t = CHR ''-'');
          body = (if t \<noteq> [] \<and> (hd t = CHR ''-'' \<or> hd t = CHR ''+'') then tl t else t)
      in if digits_ok body
         then Inr ((if neg then - 1 else 1) *
                   int (nat_of_digits (filter (\<lambda>c. c \<noteq> CHR ''_'') body)))
         else Inl ValueError)"

text \<open>\<^verbatim>\<open>str(n)\<close> on an integer.\<close>

fun str_nat :: "nat \<Rightarrow> string" where
  "str_nat n =
     (if n < 10 then [digit_char n] else str_nat (n div 10) @ [digit_char (n mod 10)])"

declare str_nat.simps [simp del]

definition str_int :: "int \<Rightarrow> string" where
  "str_int i = (if i < 0 then CHR ''-'' # str_nat (nat (- i)) else str_nat (nat i))"

text \<open>\<^verbatim>\<open>max(xs)\<close> on a list: \<^verbatim>\<open>ValueError\<close> on the empty list.\<close>

definition py_max :: "int list \<Rightarrow> int result" where
  "py_max xs = (case xs of [] \<Rightarrow> Inl ValueError | y # ys \<Rightarrow> Inr (fold max ys y))"

section \<open>The data of the hosting service\<close>

record game_version =
  gameVersionName :: string
  gameVersionTypeId :: int

record file_info =
  file_id :: int
  fileName :: string
  downloadUrl :: string
  releaseType :: int
  sortableGameVersions :: "game_version list"

section \<open>Interface numbers\<close>

text \<open>
  The body of the first loop of \<^verbatim>\<open>_pick_slug\<close>: the first three parts of the version
  name are converted, in this order; a name without a second part raises
  \<^verbatim>\<open>IndexError\<close>.
\<close>

definition pick_interface :: "string \<Rightarrow> int result" where
  "pick_interface name =
     (let parts = split_on CHR ''.'' name in
      case py_int (parts ! 0) of
        Inl e \<Rightarrow> Inl e
      | Inr major \<Rightarrow>
          if length parts < 2 then Inl IndexError
          else (case py_int (parts ! 1) of
                  Inl e \<Rightarrow> Inl e
                | Inr minor \<Rightarrow>
                    (case (if length parts > 2 then py_int (parts ! 2) else Inr 0) of
                       Inl e \<Rightarrow> Inl e
                     | Inr patch \<Rightarrow> Inr (major * 10000 + minor * 100 + patch))))"

fun pick_interfaces :: "game_version list \<Rightarrow> int list result" where
  "pick_interfaces [] = Inr []"
| "pick_interfaces (gv # gvs) =
     (case pick_interface (gameVersionName gv) of
        Inl e \<Rightarrow> Inl e
      | Inr iv \<Rightarrow>
          (case pick_interfaces gvs of Inl e \<Rightarrow> Inl e | Inr ivs \<Rightarrow> Inr (iv # ivs)))"

text \<open>
  The computation of \<^verbatim>\<open>_build_manifest\<close>: \<^verbatim>\<open>list(map(int, name.split(".")))\<close>
  converts every part, then the first three are combined.
\<close>

fun map_int :: "string list \<Rightarrow> int list result" where
  "map_int [] = Inr []"
| "map_int (p # ps) =
     (case py_int p of
        Inl e \<Rightarrow> Inl e
      | Inr v \<Rightarrow> (case map_int ps of Inl e \<Rightarrow> Inl e | Inr vs \<Rightarrow> Inr (v # vs)))"

definition manifest_interface :: "string \<Rightarrow> int result" where
  "manifest_interface name =
     (case map_int (split_on CHR ''.'' name) of
        Inl e \<Rightarrow> Inl e
      | Inr parts \<Rightarrow>
          if length parts < 2 then Inl IndexError
          else Inr (parts ! 0 * 10000 + parts ! 1 * 100
                    + (if length parts > 2 then parts ! 2 else 0)))"

section \<open>The built-in classifier\<close>

definition toc_to_type :: "int \<Rightarrow> string" where
  "toc_to_type toc_version =
     (let s = str_int toc_version in
      if startswith s ''11'' \<and> length s = 5 then ''classic''
      else if startswith s ''20'' then ''bcc''
      else if startswith s ''30'' then ''wrath''
      else if startswith s ''40'' then ''cata''
      else ''retail'')"

text \<open>
  The numeric reading of "the decimal representation begins with the two digits of
  \<open>c\<close>": the number lies in \<open>[c * 10 ^ k, (c + 1) * 10 ^ k)\<close> for some \<open>k\<close>.
\<close>

definition in_band :: "nat \<Rightarrow> nat \<Rightarrow> bool" where
  "in_band c n = (\<exists>k. c * 10 ^ k \<le> n \<and> n < (c + 1) * 10 ^ k)"

section \<open>The external classifier\<close>

text \<open>
  \<^verbatim>\<open>re.match(r"^\s*toc_to_type\s*\(\)\s*\{", line)\<close>. Each \<^verbatim>\<open>\s*\<close> is followed by a
  character that is no whitespace, so the greedy match is the only one.
\<close>

definition opens_toc_to_type :: "string \<Rightarrow> bool" where
  "opens_toc_to_type line =
     (let r1 = dropWhile is_space line in
      startswith r1 ''toc_to_type'' \<and>
      (let r2 = dropWhile is_space (drop 11 r1) in
       startswith r2 ''()'' \<and>
       startswith (dropWhile is_space (drop 2 r2)) ''{''))"

text \<open>
  The extraction loop of \<^verbatim>\<open>_bash_toc_to_type\<close>, with its three variables; \<^verbatim>\<open>break\<close>
  returns at once.
\<close>

fun extract_loop :: "bool \<Rightarrow> int \<Rightarrow> string list \<Rightarrow> string list \<Rightarrow> int \<times> string list" where
  "extract_loop capture brace_count func_body [] = (brace_count, func_body)"
| "extract_loop capture brace_count func_body (line # lines) =
     (if \<not> capture then
        (if opens_toc_to_type line
         then extract_loop True (brace_count + 1) (func_body @ [line]) lines
         else extract_loop capture brace_count func_body lines)
      else
        (let bc = brace_count + count_char line CHR ''{'' - count_char line CHR ''}'' in
         if bc = 0 then (bc, func_body @ [line])
         else extract_loop capture bc (func_body @ [line]) lines))"

definition extract_routine :: "string list \<Rightarrow> string list result" where
  "extract_routine lines =
     (case extract_loop False 0 [] lines of
        (brace_count, func_body) \<Rightarrow>
          if brace_count \<noteq> 0 then Inl FunctionExtractionError else Inr func_body)"

text \<open>The lines written to the temporary script.\<close>

definition make_script :: "string list \<Rightarrow> int \<Rightarrow> string list" where
  "make_script func_body interface =
     [''#!/usr/bin/env bash'' @ [CHR 0x0A]] @ func_body @
     [''toc_to_type '' @ [CHR 0x22] @ str_int interface @ [CHR 0x22] @ '' result'' @ [CHR 0x0A],
      ''echo '' @ [CHR 0x22] @ ''$result'' @ [CHR 0x22] @ [CHR 0x0A]]"

text \<open>
  What the host offers to one call: the lines of the local copy of the script
  (\<open>None\<close>: the file does not exist) and the interpreter at its fixed path
  (\<open>None\<close>: not present), which maps a script to its return code and standard output.
  Both \<^verbatim>\<open>open\<close> on a missing file and \<^verbatim>\<open>subprocess.run\<close> on a missing program raise
  \<^verbatim>\<open>FileNotFoundError\<close>; \<^verbatim>\<open>check=True\<close> raises on a return code other than 0.
\<close>

record host =
  release_sh :: "string list option"
  interpreter :: "(string list \<Rightarrow> int \<times> string) option"

definition bash_toc_to_type :: "host \<Rightarrow> int \<Rightarrow> string result" where
  "bash_toc_to_type h interface =
     (case release_sh h of
        None \<Rightarrow> Inl FileNotFoundError
      | Some lines \<Rightarrow>
          (case extract_routine lines of
             Inl e \<Rightarrow> Inl e
           | Inr func_body \<Rightarrow>
               (case interpreter h of
                  None \<Rightarrow> Inl FileNotFoundError
                | Some run \<Rightarrow>
                    (case run (make_script func_body interface) of
                       (returncode, stdout) \<Rightarrow>
                         if returncode \<noteq> 0 then Inl CalledProcessError
                         else Inr (py_strip stdout)))))"

section \<open>Flavor resolution\<close>

text \<open>
  Calls of the external classifier are effects: the world gives the host as the
  \<open>k\<close>-th call of a run finds it, and every operation returns the number of calls
  made so far next to its result.
\<close>

type_synonym world = "nat \<Rightarrow> host"

text \<open>The set comprehension over \<^verbatim>\<open>ivals\<close>: in order, up to the first exception.\<close>

fun bash_each :: "world \<Rightarrow> nat \<Rightarrow> int list \<Rightarrow> string list result \<times> nat" where
  "bash_each w k [] = (Inr [], k)"
| "bash_each w k (iv # ivs) =
     (case bash_toc_to_type (w k) iv of
        Inl e \<Rightarrow> (Inl e, Suc k)
      | Inr s \<Rightarrow>
          (case bash_each w (Suc k) ivs of
             (Inl e, k') \<Rightarrow> (Inl e, k')
           | (Inr ss, k') \<Rightarrow> (Inr (s # ss), k')))"

text \<open>
  The rest of \<^verbatim>\<open>_pick_slug\<close>, after the set of slugs is there; the set is a list
  without duplicates.
\<close>

definition choose_slug ::
  "world \<Rightarrow> nat \<Rightarrow> bool \<Rightarrow> string list \<Rightarrow> int list \<Rightarrow> string result \<times> nat" where
  "choose_slug w k fallback slugs ivals =
     (if ''retail'' \<in> set slugs then (Inr [], k)
      else if length slugs = 1 then (Inr (hd slugs), k)
      else (case py_max ivals of
              Inl e \<Rightarrow> (Inl e, k)
            | Inr m \<Rightarrow>
                if fallback then (Inr (toc_to_type m), k)
                else (bash_toc_to_type (w k) m, Suc k)))"

definition pick_slug :: "world \<Rightarrow> nat \<Rightarrow> file_info \<Rightarrow> string result \<times> nat" where
  "pick_slug w k info =
     (case pick_interfaces (sortableGameVersions info) of
        Inl e \<Rightarrow> (Inl e, k)
      | Inr ivals \<Rightarrow>
          (case bash_each w k ivals of
             (Inl e, k') \<Rightarrow>
               if e = FileNotFoundError
               then choose_slug w k' True (remdups (map toc_to_type ivals)) ivals
               else (Inl e, k')
           | (Inr ss, k') \<Rightarrow> choose_slug w k' False (remdups ss) ivals))"

section \<open>Responses of the two services\<close>

text \<open>
  A response is its status code and its decoded body; a session never fails to
  answer. \<^verbatim>\<open>raise_for_status\<close> raises for the codes from 400 to 599.
\<close>

definition raise_for_status :: "nat \<Rightarrow> unit result" where
  "raise_for_status status_code =
     (if 400 \<le> status_code \<and> status_code < 600 then Inl HTTPError else Inr ())"

section \<open>Selection of the latest builds\<close>

text \<open>
  The body of \<^verbatim>\<open>GET /mods/{modId}\<close>; of an entry of \<^verbatim>\<open>latestFilesIndexes\<close> only its
  \<^verbatim>\<open>fileId\<close> is read.
\<close>

record mod_data =
  mod_name :: string
  latestFiles :: "file_info list"
  latestFilesIndexes :: "int list"

record mod_response =
  mod_status :: nat
  mod_body :: mod_data

text \<open>The dictionary \<^verbatim>\<open>latest\<close>: a later file replaces an earlier one of the same id.\<close>

definition latest_of :: "file_info list \<Rightarrow> (int \<rightharpoonup> file_info)" where
  "latest_of fs =
     fold (\<lambda>f m. m(file_id f \<mapsto> f)) (filter (\<lambda>f. releaseType f = 1) fs) Map.empty"

fun ordered_loop ::
  "(int \<rightharpoonup> file_info) \<Rightarrow> int set \<Rightarrow> file_info list \<Rightarrow> int list \<Rightarrow> file_info list" where
  "ordered_loop latest seen ordered [] = ordered"
| "ordered_loop latest seen ordered (fid # idxs) =
     (case latest fid of
        Some f \<Rightarrow>
          if fid \<notin> seen then ordered_loop latest (insert fid seen) (ordered @ [f]) idxs
          else ordered_loop latest seen ordered idxs
      | None \<Rightarrow> ordered_loop latest seen ordered idxs)"

definition get_latest_files :: "mod_response \<Rightarrow> file_info list result" where
  "get_latest_files r =
     (case raise_for_status (mod_status r) of
        Inl e \<Rightarrow> Inl e
      | Inr _ \<Rightarrow>
          Inr (ordered_loop (latest_of (latestFiles (mod_body r))) {} []
                 (latestFilesIndexes (mod_body r))))"

section \<open>The manifest\<close>

text \<open>
  \<^verbatim>\<open>re.search(r"(\d+\.\d+\.\d+)", fn)\<close>: at one position the greedy runs of digits
  are forced, since a dot is no digit; the search takes the leftmost position.
\<close>

definition match_version :: "string \<Rightarrow> string option" where
  "match_version s =
     (let d1 = takeWhile is_digit s; r1 = dropWhile is_digit s in
      if d1 = [] \<or> \<not> startswith r1 ''.'' then None
      else
        (let d2 = takeWhile is_digit (tl r1); r2 = dropWhile is_digit (tl r1) in
         if d2 = [] \<or> \<not> startswith r2 ''.'' then None
         else
           (let d3 = takeWhile is_digit (tl r2) in
            if d3 = [] then None else Some (d1 @ ''.'' @ d2 @ ''.'' @ d3))))"

fun search_version :: "string \<Rightarrow> string option" where
  "search_version [] = None"
| "search_version (c # cs) =
     (case match_version (c # cs) of
        Some v \<Rightarrow> Some v
      | None \<Rightarrow> search_version cs)"

record manifest_entry =
  entry_name :: string
  version :: string
  filename :: string
  nolib :: bool
  metadata :: "(string \<times> int) list"

text \<open>The inner loop: one pair of flavor and interface number for each game version.\<close>

fun manifest_metadata :: "(int \<rightharpoonup> string) \<Rightarrow> game_version list \<Rightarrow> (string \<times> int) list result" where
  "manifest_metadata version_types [] = Inr []"
| "manifest_metadata version_types (gv # gvs) =
     (let fv = (case version_types (gameVersionTypeId gv) of
                  Some slug \<Rightarrow> slug | None \<Rightarrow> ''mainline'') in
      case manifest_interface (gameVersionName gv) of
        Inl e \<Rightarrow> Inl e
      | Inr iface \<Rightarrow>
          (case manifest_metadata version_types gvs of
             Inl e \<Rightarrow> Inl e
           | Inr md \<Rightarrow> Inr ((fv, iface) # md)))"

fun build_manifest ::
  "(int \<rightharpoonup> string) \<Rightarrow> string \<Rightarrow> (string \<times> string \<times> file_info) list \<Rightarrow> manifest_entry list result" where
  "build_manifest version_types mname [] = Inr []"
| "build_manifest version_types mname ((fn, slug, info) # downloads) =
     (let ver = (case search_version fn of Some v \<Rightarrow> v | None \<Rightarrow> []) in
      case manifest_metadata version_types (sortableGameVersions info) of
        Inl e \<Rightarrow> Inl e
      | Inr md \<Rightarrow>
          (case build_manifest version_types mname downloads of
             Inl e \<Rightarrow> Inl e
           | Inr rs \<Rightarrow>
               Inr (\<lparr>entry_name = mname, version = ver, filename = fn, nolib = False,
                      metadata = md\<rparr> # rs)))"

section \<open>Finding or creating the release\<close>

record release_response =
  status_code :: nat
  upload_url :: "string option"

record release_payload =
  tag_name :: string
  release_name :: string
  release_body :: string
  draft :: bool
  prerelease :: bool

text \<open>
  The source-hosting service answers a lookup by URL and a creation by URL and
  payload. The requests a call sends are returned with its result, in order.
\<close>

record github =
  gh_get :: "string \<Rightarrow> release_response"
  gh_post :: "string \<Rightarrow> release_payload \<Rightarrow> release_response"

datatype request = Get string | Post string release_payload

definition GH_API :: string where
  "GH_API = ''https://api.github.com''"

text \<open>
  The end of \<^verbatim>\<open>_get_or_create_release\<close>, on whichever response is the last one:
  \<^verbatim>\<open>r.raise_for_status()\<close>, then \<^verbatim>\<open>r.json()["upload_url"].split("{")[0]\<close>; a body
  without that key raises.
\<close>

definition release_target :: "release_response \<Rightarrow> string result" where
  "release_target r =
     (case raise_for_status (status_code r) of
        Inl e \<Rightarrow> Inl e
      | Inr _ \<Rightarrow>
          (case upload_url r of
             None \<Rightarrow> Inl KeyError
           | Some u \<Rightarrow> Inr (takeWhile (\<lambda>c. c \<noteq> CHR ''{'') u)))"

text \<open>
  \<^verbatim>\<open>owner, name = repo.split("/", 1)\<close> raises \<^verbatim>\<open>ValueError\<close> when the repository
  identifier has no slash; otherwise the owner is what stands before the first slash
  and the name is the rest. The two URLs of the function follow.
\<close>

definition releases_url :: "string \<Rightarrow> string" where
  "releases_url repo =
     (let owner = takeWhile (\<lambda>c. c \<noteq> CHR ''/'') repo;
          name = tl (dropWhile (\<lambda>c. c \<noteq> CHR ''/'') repo)
      in GH_API @ ''/repos/'' @ owner @ ''/'' @ name @ ''/releases'')"

definition lookup_url :: "string \<Rightarrow> string \<Rightarrow> string" where
  "lookup_url repo tag = releases_url repo @ ''/tags/'' @ tag"

definition get_or_create_release ::
  "github \<Rightarrow> string \<Rightarrow> string \<Rightarrow> string \<Rightarrow> string result \<times> request list" where
  "get_or_create_release gh repo tag body_md =
     (if CHR ''/'' \<notin> set repo then (Inl ValueError, [])
      else
        (let r = gh_get gh (lookup_url repo tag)
         in if status_code r = 404 then
              (let payload = \<lparr>tag_name = tag, release_name = tag, release_body = body_md,
                               draft = False, prerelease = False\<rparr>
               in (release_target (gh_post gh (releases_url repo) payload),
                   [Get (lookup_url repo tag), Post (releases_url repo) payload]))
            else (release_target r, [Get (lookup_url repo tag)])))"

section \<open>Notions of the specification\<close>

text \<open>A numeric component of a version name: a nonempty run of decimal digits.\<close>

definition numeric :: "string \<Rightarrow> bool" where
  "numeric s = (s \<noteq> [] \<and> list_all is_digit s)"

section \<open>Example inputs\<close>

definition example_file :: "int \<Rightarrow> int \<Rightarrow> game_version list \<Rightarrow> file_info" where
  "example_file i t gvs =
     \<lparr>file_id = i, fileName = ''Addon.zip'', downloadUrl = ''https://example.invalid/f'',
      releaseType = t, sortableGameVersions = gvs\<rparr>"

definition example_mod :: mod_response where
  "example_mod =
     \<lparr>mod_status = 200,
      mod_body = \<lparr>mod_name = ''Addon'',
                  latestFiles = [example_file 1 1 [], example_file 2 2 [], example_file 3 1 []],
                  latestFilesIndexes = [3, 2, 1, 3]\<rparr>\<rparr>"

definition example_github :: github where
  "example_github =
     \<lparr>gh_get = (\<lambda>url. \<lparr>status_code = 200,
                          upload_url = Some ''https://uploads.example.invalid/1/assets{?name,label}''\<rparr>),
      gh_post = (\<lambda>url payload. \<lparr>status_code = 422, upload_url = None\<rparr>)\<rparr>"

text \<open>A local copy of the script with the routine, one cut off before the closing
  brace, and one without the routine.\<close>

definition example_script :: "string list" where
  "example_script =
     [''#!/usr/bin/env bash'' @ [CHR 0x0A],
      ''toc_to_type() {'' @ [CHR 0x0A],
      ''  case $1 in 11???) eval $2=classic ;; *) eval $2=retail ;; esac'' @ [CHR 0x0A],
      ''}'' @ [CHR 0x0A],
      ''exit 0'' @ [CHR 0x0A]]"

definition example_script_unclosed :: "string list" where
  "example_script_unclosed = take 3 example_script"

definition example_script_without_routine :: "string list" where
  "example_script_without_routine =
     [''#!/usr/bin/env bash'' @ [CHR 0x0A], ''exit 0'' @ [CHR 0x0A]]"

text \<open>
  Worlds: the interpreter is absent at every call; it answers the \<open>k\<close>-th call with
  a given line; it is absent at the first call only; the local copy is cut off; the
  interpreter exits with code 1.
\<close>

definition world_no_interpreter :: world where
  "world_no_interpreter k = \<lparr>release_sh = Some example_script, interpreter = None\<rparr>"

definition world_answering :: "(nat \<Rightarrow> string) \<Rightarrow> world" where
  "world_answering answer k =
     \<lparr>release_sh = Some example_script,
      interpreter = Some (\<lambda>script. (0, answer k @ [CHR 0x0A]))\<rparr>"

definition world_late_interpreter :: world where
  "world_late_interpreter k =
     (if k = 0 then world_no_interpreter k else world_answering (\<lambda>_. ''wrath'') k)"

definition world_unclosed :: world where
  "world_unclosed k =
     \<lparr>release_sh = Some example_script_unclosed,
      interpreter = Some (\<lambda>script. (0, ''classic'' @ [CHR 0x0A]))\<rparr>"

definition world_exit_nonzero :: world where
  "world_exit_nonzero k =
     \<lparr>release_sh = Some example_script, interpreter = Some (\<lambda>script. (1, []))\<rparr>"

text \<open>Builds: classic only; classic and retail; classic and bcc.\<close>

definition example_versions :: "string list \<Rightarrow> game_version list" where
  "example_versions names = map (\<lambda>n. \<lparr>gameVersionName = n, gameVersionTypeId = 0\<rparr>) names"

definition build_classic :: file_info where
  "build_classic = example_file 1 1 (example_versions [''1.15.6''])"

definition build_classic_retail :: file_info where
  "build_classic_retail = example_file 2 1 (example_versions [''1.15.6'', ''10.0.0''])"

definition build_classic_bcc :: file_info where
  "build_classic_bcc = example_file 3 1 (example_versions [''1.15.6'', ''2.5.4''])"

section \<open>Decimal representations\<close>

text \<open>
  \<open>str_nat\<close> writes a number in base ten without leading zeros, so a condition on
  its first two characters and on its length is a condition on the number.
\<close>
lemma of_char_digit_char: "d < 10 \<Longrightarrow> of_char (digit_char d) = 48 + d"
  by (simp add: digit_char_def)

lemma digit_char_inj:
  "a < 10 \<Longrightarrow> b < 10 \<Longrightarrow> digit_char a = digit_char b \<longleftrightarrow> a = b"
proof
  assume "a < 10" "b < 10" "digit_char a = digit_char b"
  then have "(of_char (digit_char a) :: nat) = of_char (digit_char b)" by simp
  with \<open>a < 10\<close> \<open>b < 10\<close> show "a = b" by (simp add: of_char_digit_char)
qed simp

lemma length_str_nat_ge2: "10 \<le> n \<Longrightarrow> 2 \<le> length (str_nat n)"
  by (subst str_nat.simps, subst str_nat.simps) simp

lemma str_nat_ne: "str_nat n \<noteq> []"
  by (subst str_nat.simps) simp

lemma str_nat_small: "n < 10 \<Longrightarrow> str_nat n = [digit_char n]"
  by (subst str_nat.simps) simp

lemma str_nat_big: "10 \<le> n \<Longrightarrow> str_nat n = str_nat (n div 10) @ [digit_char (n mod 10)]"
  by (subst str_nat.simps) simp


lemma in_band_step:
  assumes "100 \<le> n" "10 \<le> c" "c < 100"
  shows "in_band c n \<longleftrightarrow> in_band c (n div 10)"
proof
  assume "in_band c n"
  then obtain k where k: "c * 10 ^ k \<le> n" "n < (c + 1) * 10 ^ k"
    unfolding in_band_def by blast
  have "k \<noteq> 0" using k assms by (cases k) auto
  then obtain j where j: "k = Suc j" by (cases k) auto
  have "c * 10 ^ j \<le> n div 10" using k(1) unfolding j by (simp add: less_eq_div_iff_mult_less_eq) 
  moreover have "n div 10 < (c + 1) * 10 ^ j" using k(2) unfolding j
    by (simp add: div_less_iff_less_mult mult.commute ab_semigroup_mult_class.mult_ac(1))
  ultimately show "in_band c (n div 10)" unfolding in_band_def by blast
next
  assume "in_band c (n div 10)"
  then obtain k where k: "c * 10 ^ k \<le> n div 10" "n div 10 < (c + 1) * 10 ^ k"
    unfolding in_band_def by blast
  have "c * 10 ^ Suc k \<le> n" using k(1) by (simp add: less_eq_div_iff_mult_less_eq)
  moreover have "n < (c + 1) * 10 ^ Suc k" using k(2)
    by (simp add: div_less_iff_less_mult mult.commute ab_semigroup_mult_class.mult_ac(1))
  ultimately show "in_band c n" unfolding in_band_def by blast
qed


lemma take2_str_nat:
  assumes "0 < a" "a < 10" "b < 10"
  shows "take 2 (str_nat n) = [digit_char a, digit_char b] \<longleftrightarrow> in_band (10 * a + b) n"
proof (induction n rule: str_nat.induct)
  case (1 n)
  show ?case
  proof (cases "n < 10")
    case True
    have "\<not> in_band (10 * a + b) n"
    proof
      assume "in_band (10 * a + b) n"
      then obtain k where "(10 * a + b) * 10 ^ k \<le> n" unfolding in_band_def by blast
      moreover have "10 * 1 \<le> (10 * a + b) * 10 ^ k"
        using assms by (intro mult_le_mono) auto
      ultimately show False using True by simp
    qed
    then show ?thesis using True by (simp add: str_nat_small)
  next
    case False
    note big = False
    show ?thesis
    proof (cases "n < 100")
      case True
      have s: "str_nat n = [digit_char (n div 10), digit_char (n mod 10)]"
        using True big by (simp add: str_nat_big str_nat_small)
      have "in_band (10 * a + b) n \<longleftrightarrow> n = 10 * a + b"
      proof
        assume "in_band (10 * a + b) n"
        then obtain k where k: "(10 * a + b) * 10 ^ k \<le> n" "n < (10 * a + b + 1) * 10 ^ k"
          unfolding in_band_def by blast
        have "k = 0"
        proof (rule ccontr)
          assume "k \<noteq> 0"
          then obtain j where "k = Suc j" by (cases k) auto
          then have "10 * 10 \<le> (10 * a + b) * 10 ^ k"
            using assms by (intro mult_le_mono) auto
          then show False using k True by simp
        qed
        then show "n = 10 * a + b" using k by simp
      next
        assume "n = 10 * a + b"
        then have "(10 * a + b) * 10 ^ 0 \<le> n \<and> n < (10 * a + b + 1) * 10 ^ 0" by simp
        then show "in_band (10 * a + b) n" unfolding in_band_def by blast
      qed
      moreover have "n div 10 = a \<and> n mod 10 = b \<longleftrightarrow> n = 10 * a + b"
        using assms by auto
      ultimately show ?thesis using s assms True
        by (simp add: digit_char_inj)
    next
      case False
      then have "10 \<le> n div 10" by simp
      then have "2 \<le> length (str_nat (n div 10))" by (rule length_str_nat_ge2)
      moreover have "str_nat n = str_nat (n div 10) @ [digit_char (n mod 10)]"
        using big by (intro str_nat_big) simp
      ultimately have "take 2 (str_nat n) = take 2 (str_nat (n div 10))" by simp
      moreover have "in_band (10 * a + b) n \<longleftrightarrow> in_band (10 * a + b) (n div 10)"
        using False assms by (intro in_band_step) auto
      ultimately show ?thesis using 1 big by simp
    qed
  qed
qed


lemma length_str_nat_le: "0 < k \<Longrightarrow> length (str_nat n) \<le> k \<longleftrightarrow> n < 10 ^ k"
proof (induction n arbitrary: k rule: str_nat.induct)
  case (1 n)
  show ?case
  proof (cases "n < 10")
    case True
    have "(10::nat) ^ 1 \<le> 10 ^ k" using "1.prems" by (intro power_increasing) auto
    then show ?thesis using True "1.prems" by (simp add: str_nat_small)
  next
    case False
    then have s: "str_nat n = str_nat (n div 10) @ [digit_char (n mod 10)]"
      by (intro str_nat_big) simp
    show ?thesis
    proof (cases k)
      case 0
      then show ?thesis using "1.prems" by simp
    next
      case (Suc j)
      show ?thesis
      proof (cases "j = 0")
        case True
        then show ?thesis using False Suc s str_nat_ne[of "n div 10"]
          by (cases "str_nat (n div 10)") auto
      next
        case jpos: False
        then have "length (str_nat (n div 10)) \<le> j \<longleftrightarrow> n div 10 < 10 ^ j"
          using "1.IH"[of j] False by simp
        moreover have "n div 10 < 10 ^ j \<longleftrightarrow> n < 10 ^ Suc j"
          by (simp add: div_less_iff_less_mult mult.commute)
        ultimately show ?thesis using Suc s by simp
      qed
    qed
  qed
qed

lemma length_str_nat_5: "length (str_nat n) = 5 \<longleftrightarrow> 10000 \<le> n \<and> n < 100000"
proof -
  have "length (str_nat n) = 5 \<longleftrightarrow> length (str_nat n) \<le> 5 \<and> \<not> length (str_nat n) \<le> 4"
    by auto
  also have "\<dots> \<longleftrightarrow> n < 10 ^ 5 \<and> \<not> n < 10 ^ 4"
    using length_str_nat_le[of 5 n] length_str_nat_le[of 4 n] by simp
  finally show ?thesis by auto
qed

lemma digit_chars:
  "digit_char 0 = CHR ''0''" "digit_char 1 = CHR ''1''" "digit_char 2 = CHR ''2''"
  "digit_char 3 = CHR ''3''" "digit_char 4 = CHR ''4''"
  by (simp_all add: digit_char_def char_of_eq_iff)

lemma in_band_11_5: "in_band 11 n \<and> 10000 \<le> n \<and> n < 100000 \<longleftrightarrow> 11000 \<le> n \<and> n < 12000"
proof
  assume a: "in_band 11 n \<and> 10000 \<le> n \<and> n < 100000"
  then obtain k where k: "11 * 10 ^ k \<le> n" "n < 12 * 10 ^ k"
    unfolding in_band_def by auto
  have "k < 4"
  proof (rule ccontr)
    assume "\<not> k < 4"
    then have "(10::nat) ^ 4 \<le> 10 ^ k" by (intro power_increasing) auto
    then show False using k a by simp
  qed
  moreover have "2 < k"
  proof (rule ccontr)
    assume "\<not> 2 < k"
    then have "(10::nat) ^ k \<le> 10 ^ 2" by (intro power_increasing) auto
    then show False using k a by simp
  qed
  ultimately have "k = 3" by simp
  then show "11000 \<le> n \<and> n < 12000" using k by simp
next
  assume a: "11000 \<le> n \<and> n < 12000"
  then have "11 * 10 ^ 3 \<le> n \<and> n < (11 + 1) * 10 ^ 3" by simp
  then have "in_band 11 n" unfolding in_band_def by blast
  then show "in_band 11 n \<and> 10000 \<le> n \<and> n < 100000" using a by simp
qed


lemma startswith_str_nat:
  "startswith (str_nat n) ''11'' \<longleftrightarrow> in_band 11 n"
  "startswith (str_nat n) ''20'' \<longleftrightarrow> in_band 20 n"
  "startswith (str_nat n) ''30'' \<longleftrightarrow> in_band 30 n"
  "startswith (str_nat n) ''40'' \<longleftrightarrow> in_band 40 n"
proof -
  have l: "length ''11'' = 2" "length ''20'' = 2" "length ''30'' = 2" "length ''40'' = 2"
    by simp_all
  have d: "''11'' = [digit_char 1, digit_char 1]" "''20'' = [digit_char 2, digit_char 0]"
    "''30'' = [digit_char 3, digit_char 0]" "''40'' = [digit_char 4, digit_char 0]"
    by (simp_all only: digit_chars)
  show "startswith (str_nat n) ''11'' \<longleftrightarrow> in_band 11 n"
    unfolding startswith_def l using take2_str_nat[of 1 1 n] by (simp only: d) simp
  show "startswith (str_nat n) ''20'' \<longleftrightarrow> in_band 20 n"
    unfolding startswith_def l using take2_str_nat[of 2 0 n] by (simp only: d) simp
  show "startswith (str_nat n) ''30'' \<longleftrightarrow> in_band 30 n"
    unfolding startswith_def l using take2_str_nat[of 3 0 n] by (simp only: d) simp
  show "startswith (str_nat n) ''40'' \<longleftrightarrow> in_band 40 n"
    unfolding startswith_def l using take2_str_nat[of 4 0 n] by (simp only: d) simp
qed


lemma toc_to_type_nat:
  "toc_to_type (int n) =
     (if 11000 \<le> n \<and> n < 12000 then ''classic''
      else if in_band 20 n then ''bcc''
      else if in_band 30 n then ''wrath''
      else if in_band 40 n then ''cata''
      else ''retail'')"
proof -
  have s: "str_int (int n) = str_nat n" by (simp add: str_int_def)
  have c: "startswith (str_nat n) ''11'' \<and> length (str_nat n) = 5 \<longleftrightarrow> 11000 \<le> n \<and> n < 12000"
    using in_band_11_5[of n] by (simp add: startswith_str_nat length_str_nat_5)
  show ?thesis
    unfolding toc_to_type_def Let_def s
    by (simp only: c) (simp only: startswith_str_nat)
qed

lemma toc_to_type_neg: "iv < 0 \<Longrightarrow> toc_to_type iv = ''retail''"
  by (simp add: toc_to_type_def str_int_def startswith_def)

lemma toc_to_type_numeric:
  "toc_to_type iv =
     (if 11000 \<le> iv \<and> iv < 12000 then ''classic''
      else if 0 \<le> iv \<and> in_band 20 (nat iv) then ''bcc''
      else if 0 \<le> iv \<and> in_band 30 (nat iv) then ''wrath''
      else if 0 \<le> iv \<and> in_band 40 (nat iv) then ''cata''
      else ''retail'')"
proof (cases "iv < 0")
  case True
  then show ?thesis by (simp add: toc_to_type_neg)
next
  case False
  then have "toc_to_type iv = toc_to_type (int (nat iv))" by simp
  also have "\<dots> = (if 11000 \<le> nat iv \<and> nat iv < 12000 then ''classic''
      else if in_band 20 (nat iv) then ''bcc''
      else if in_band 30 (nat iv) then ''wrath''
      else if in_band 40 (nat iv) then ''cata''
      else ''retail'')" by (rule toc_to_type_nat)
  finally have e: "toc_to_type iv = (if 11000 \<le> nat iv \<and> nat iv < 12000 then ''classic''
      else if in_band 20 (nat iv) then ''bcc''
      else if in_band 30 (nat iv) then ''wrath''
      else if in_band 40 (nat iv) then ''cata''
      else ''retail'')" .
  have "11000 \<le> nat iv \<and> nat iv < 12000 \<longleftrightarrow> 11000 \<le> iv \<and> iv < 12000"
    using False by linarith
  moreover have "0 \<le> iv" using False by simp
  ultimately show ?thesis unfolding e by (simp only: simp_thms)
qed

lemma toc_to_type_examples: "toc_to_type 40402 = ''cata''" "toc_to_type 11506 = ''classic''"
  "toc_to_type 20504 = ''bcc''" "toc_to_type 30402 = ''wrath''" "toc_to_type 90205 = ''retail''"
  by (simp_all add: toc_to_type_def str_int_def str_nat.simps startswith_def digit_char_def char_of_eq_iff)

text \<open>
  Claim C6. The built-in classifier is a total function of the interface number
  alone, and its value is fixed by the bands of the decimal representation: five
  digits beginning with 11 (the numbers from 11000 to 11999) give classic; a
  representation beginning with 20 gives bcc, with 30 wrath, with 40 cata; every
  other number, also a negative one, gives retail. The five examples of the
  specification are instances.
\<close>

theorem toc_to_type_bands:
  "toc_to_type iv =
     (if 11000 \<le> iv \<and> iv < 12000 then ''classic''
      else if 0 \<le> iv \<and> in_band 20 (nat iv) then ''bcc''
      else if 0 \<le> iv \<and> in_band 30 (nat iv) then ''wrath''
      else if 0 \<le> iv \<and> in_band 40 (nat iv) then ''cata''
      else ''retail'')
   \<and> toc_to_type 40402 = ''cata'' \<and> toc_to_type 11506 = ''classic''
   \<and> toc_to_type 20504 = ''bcc'' \<and> toc_to_type 30402 = ''wrath''
   \<and> toc_to_type 90205 = ''retail''"
  using toc_to_type_numeric[of iv] toc_to_type_examples by (simp only: simp_thms)

section \<open>Interface numbers of version names\<close>
lemma split_on_no_sep: "c \<notin> set a \<Longrightarrow> split_on c a = [a]"
  by (induction a) auto

lemma split_on_append_sep:
  "c \<notin> set a \<Longrightarrow> split_on c (a @ c # rest) = a # split_on c rest"
  by (induction a) auto

lemma split_on_join_dots:
  "cs \<noteq> [] \<Longrightarrow> \<forall>c\<in>set cs. CHR ''.'' \<notin> set c \<Longrightarrow> split_on CHR ''.'' (join_dots cs) = cs"
proof (induction cs rule: join_dots.induct)
  case 1
  then show ?case by simp
next
  case (2 c)
  then show ?case by (simp add: split_on_no_sep)
next
  case (3 c d cs)
  then show ?case by (simp add: split_on_append_sep)
qed

lemma is_digit_not_space: "is_digit c \<Longrightarrow> \<not> is_int_space c"
  by (auto simp: is_digit_def is_int_space_def Let_def)

lemma is_digit_not_special:
  "is_digit c \<Longrightarrow> c \<noteq> CHR ''.'' \<and> c \<noteq> CHR ''_'' \<and> c \<noteq> CHR ''-'' \<and> c \<noteq> CHR ''+''"
  by (auto simp: is_digit_def)

lemma dropWhile_none: "\<forall>x\<in>set xs. \<not> P x \<Longrightarrow> dropWhile P xs = xs"
  by (cases xs) auto

lemma int_strip_digits: "\<forall>c\<in>set s. is_digit c \<Longrightarrow> int_strip s = s"
  by (simp add: int_strip_def dropWhile_none is_digit_not_space)

lemma digits_ok_digits: "s \<noteq> [] \<Longrightarrow> \<forall>c\<in>set s. is_digit c \<Longrightarrow> digits_ok s"
  by (induction s rule: digits_ok.induct) (auto simp: is_digit_not_special)

lemma filter_underscore_digits:
  "\<forall>c\<in>set s. is_digit c \<Longrightarrow> filter (\<lambda>c. c \<noteq> CHR ''_'') s = s"
  by (induction s) (auto simp: is_digit_not_special)

lemma py_int_digits:
  assumes "s \<noteq> []" "\<forall>c\<in>set s. is_digit c"
  shows "py_int s = Inr (int (nat_of_digits s))"
proof -
  have "is_digit (hd s)" using assms by (cases s) auto
  then have "hd s \<noteq> CHR ''-''" "hd s \<noteq> CHR ''+''" using is_digit_not_special by blast+
  then show ?thesis using assms
    by (simp add: py_int_def int_strip_digits digits_ok_digits filter_underscore_digits)
qed


lemma map_int_numeric:
  "list_all numeric cs \<Longrightarrow> map_int cs = Inr (map (\<lambda>c. int (nat_of_digits c)) cs)"
  by (induction cs) (auto simp: numeric_def py_int_digits list_all_iff)


lemma numeric_no_dot: "numeric c \<Longrightarrow> CHR ''.'' \<notin> set c"
  using is_digit_not_special by (auto simp: numeric_def list_all_iff)

lemma numeric_py_int: "numeric c \<Longrightarrow> py_int c = Inr (int (nat_of_digits c))"
  by (simp add: numeric_def py_int_digits list_all_iff)

lemma nat_of_digits_snoc: "nat_of_digits (ds @ [c]) = 10 * nat_of_digits ds + digit_val c"
  by (simp add: nat_of_digits_def)

lemma digit_val_digit_char: "d < 10 \<Longrightarrow> digit_val (digit_char d) = d"
  by (simp add: digit_val_def digit_char_def)

lemma is_digit_digit_char: "d < 10 \<Longrightarrow> is_digit (digit_char d)"
  by (simp add: is_digit_def digit_char_def)

lemma nat_of_digits_str_nat: "nat_of_digits (str_nat n) = n"
proof (induction n rule: str_nat.induct)
  case (1 n)
  show ?case
  proof (cases "n < 10")
    case True
    then show ?thesis by (simp add: str_nat_small nat_of_digits_def digit_val_digit_char)
  next
    case False
    then have "str_nat n = str_nat (n div 10) @ [digit_char (n mod 10)]"
      by (intro str_nat_big) simp
    then show ?thesis using 1 False
      by (simp add: nat_of_digits_snoc digit_val_digit_char)
  qed
qed

lemma numeric_str_nat: "numeric (str_nat n)"
proof (induction n rule: str_nat.induct)
  case (1 n)
  show ?case
  proof (cases "n < 10")
    case True
    then show ?thesis by (simp add: str_nat_small numeric_def is_digit_digit_char)
  next
    case False
    then have "str_nat n = str_nat (n div 10) @ [digit_char (n mod 10)]"
      by (intro str_nat_big) simp
    then show ?thesis using 1 False
      by (simp add: numeric_def is_digit_digit_char)
  qed
qed

text \<open>
  Whenever the manifest step yields an interface number, the resolution step yields
  the same one. The converse fails only where a part after the third is not a
  number: the manifest step converts every part.
\<close>

lemma map_int_Inr:
  "map_int ps = Inr vs \<Longrightarrow>
     length vs = length ps \<and> (\<forall>i<length ps. py_int (ps ! i) = Inr (vs ! i))"
proof (induction ps arbitrary: vs)
  case Nil
  then show ?case by simp
next
  case (Cons p ps)
  from Cons.prems obtain v vs' where v: "py_int p = Inr v" "map_int ps = Inr vs'" "vs = v # vs'"
    by (auto split: sum.splits)
  have ih: "length vs' = length ps" "\<forall>i<length ps. py_int (ps ! i) = Inr (vs' ! i)"
    using Cons.IH[OF v(2)] by simp_all
  have "py_int ((p # ps) ! i) = Inr (vs ! i)" if "i < length (p # ps)" for i
    using that v ih by (cases i) simp_all
  then show ?case using ih(1) v(3) by simp
qed

lemma manifest_interface_agrees:
  assumes "manifest_interface name = Inr v"
  shows "pick_interface name = Inr v"
proof -
  let ?parts = "split_on CHR ''.'' name"
  obtain vs where vs: "map_int ?parts = Inr vs"
    using assms by (auto simp: manifest_interface_def split: sum.splits)
  have len: "length vs = length ?parts" and
    nth: "\<And>i. i < length ?parts \<Longrightarrow> py_int (?parts ! i) = Inr (vs ! i)"
    using map_int_Inr[OF vs] by simp_all
  have l2: "\<not> length ?parts < 2" and
    v: "v = vs ! 0 * 10000 + vs ! 1 * 100 + (if length ?parts > 2 then vs ! 2 else 0)"
    using assms vs len by (auto simp: manifest_interface_def split: if_splits)
  have i0: "py_int (?parts ! 0) = Inr (vs ! 0)" using l2 by (intro nth) auto
  have i1: "py_int (?parts ! 1) = Inr (vs ! 1)" using l2 by (intro nth) auto
  have i2: "py_int (?parts ! 2) = Inr (vs ! 2)" if "length ?parts > 2" using that by (intro nth)
  show ?thesis
    unfolding pick_interface_def Let_def i0 i1
    using l2 i2 v by (cases "length ?parts > 2") simp_all
qed

lemma interface_examples:
  "pick_interface ''4.4.0'' = Inr 40400" "manifest_interface ''4.4.0'' = Inr 40400"
  "pick_interface ''2.5'' = Inr 20500" "manifest_interface ''2.5'' = Inr 20500"
  by (simp_all add: pick_interface_def manifest_interface_def py_int_def int_strip_def
      is_int_space_def is_digit_def nat_of_digits_def digit_val_def)

lemma interfaces_differ_on_fourth_part:
  "pick_interface ''1.2.3.x'' = Inr 10203" "manifest_interface ''1.2.3.x'' = Inl ValueError"
  by (simp_all add: pick_interface_def manifest_interface_def py_int_def int_strip_def
      is_int_space_def is_digit_def nat_of_digits_def digit_val_def)

text \<open>
  A separator character before the digits is dropped by \<^verbatim>\<open>str.strip\<close> but not by the
  conversion: such a version name raises \<^verbatim>\<open>ValueError\<close> in both steps. Tabs and
  spaces around a part are dropped.
\<close>

lemma py_int_whitespace:
  "py_int [CHR 0x1F, CHR ''1''] = Inl ValueError"
  "py_strip [CHR 0x1F, CHR ''1''] = ''1''"
  "py_int [CHR 0x09, CHR ''1'', CHR 0x20] = Inr 1"
  "pick_interface (CHR 0x1F # ''1.15.6'') = Inl ValueError"
  "manifest_interface (CHR 0x1F # ''1.15.6'') = Inl ValueError"
  by (simp_all add: pick_interface_def manifest_interface_def py_int_def int_strip_def
      is_int_space_def py_strip_def is_space_def is_digit_def nat_of_digits_def digit_val_def)

lemma search_version_examples:
  "search_version ''Addon-1.2.3-classic.zip'' = Some ''1.2.3''"
  "search_version ''Addon-classic.zip'' = None"
  by (simp_all add: match_version_def is_digit_def startswith_def)

text \<open>
  Claim C5. For a version name whose components, separated by dots, are all
  numeric and at least two, the interface number is
  \<open>major * 10000 + minor * 100 + patch\<close>, where the patch is 0 when there is no
  third component; the loop of \<^verbatim>\<open>_pick_slug\<close> and the loop of \<^verbatim>\<open>_build_manifest\<close>
  compute the same number.
\<close>

theorem interface_number_formula:
  assumes "2 \<le> length cs" and "list_all numeric cs"
  shows "pick_interface (join_dots cs) =
           Inr (int (nat_of_digits (cs ! 0)) * 10000 + int (nat_of_digits (cs ! 1)) * 100
                + (if 2 < length cs then int (nat_of_digits (cs ! 2)) else 0))
         \<and> manifest_interface (join_dots cs) = pick_interface (join_dots cs)"
proof -
  have ne: "cs \<noteq> []" using assms(1) by auto
  have sp: "split_on CHR ''.'' (join_dots cs) = cs"
    using ne assms(2) by (intro split_on_join_dots) (auto simp: list_all_iff numeric_no_dot)
  have n: "numeric (cs ! i)" if "i < length cs" for i
    using assms(2) that by (simp add: list_all_length)
  have p: "pick_interface (join_dots cs) =
           Inr (int (nat_of_digits (cs ! 0)) * 10000 + int (nat_of_digits (cs ! 1)) * 100
                + (if 2 < length cs then int (nat_of_digits (cs ! 2)) else 0))"
  proof -
    have i0: "py_int (cs ! 0) = Inr (int (nat_of_digits (cs ! 0)))"
      using assms(1) by (intro numeric_py_int n) auto
    have i1: "py_int (cs ! 1) = Inr (int (nat_of_digits (cs ! 1)))"
      using assms(1) by (intro numeric_py_int n) auto
    have i2: "py_int (cs ! 2) = Inr (int (nat_of_digits (cs ! 2)))" if "2 < length cs"
      using that by (intro numeric_py_int n)
    have l: "\<not> length cs < 2" using assms(1) by simp
    show ?thesis
      unfolding pick_interface_def Let_def sp i0 i1
      using l i2 by (cases "2 < length cs") simp_all
  qed
  have m: "manifest_interface (join_dots cs) =
           Inr (int (nat_of_digits (cs ! 0)) * 10000 + int (nat_of_digits (cs ! 1)) * 100
                + (if 2 < length cs then int (nat_of_digits (cs ! 2)) else 0))"
  proof -
    have "0 < length cs" "1 < length cs" "\<not> length cs < 2" using assms(1) by auto
    then show ?thesis
      by (simp add: manifest_interface_def sp map_int_numeric[OF assms(2)])
  qed
  show ?thesis using p m by simp
qed

theorem interface_number_formula_witness:
  "2 \<le> length [''1'', ''15'', ''6''] \<and> list_all numeric [''1'', ''15'', ''6'']
   \<and> pick_interface ''1.15.6'' = Inr 11506 \<and> manifest_interface ''1.15.6'' = Inr 11506"
  using interface_number_formula[of "[''1'', ''15'', ''6'']"]
  by (simp add: numeric_def is_digit_def nat_of_digits_def digit_val_def)

section \<open>The selected latest builds\<close>

lemma fold_latest_Some:
  "fold (\<lambda>f m. m(file_id f \<mapsto> f)) fs m k = Some f \<Longrightarrow>
     m k = Some f \<or> (file_id f = k \<and> f \<in> set fs)"
proof (induction fs arbitrary: m)
  case Nil
  then show ?case by simp
next
  case (Cons a fs)
  from Cons.prems have "fold (\<lambda>f m. m(file_id f \<mapsto> f)) fs (m(file_id a \<mapsto> a)) k = Some f"
    by (simp only: fold_simps)
  then have "(m(file_id a \<mapsto> a)) k = Some f \<or> (file_id f = k \<and> f \<in> set fs)"
    by (rule Cons.IH)
  then show ?case by (cases "k = file_id a") auto
qed

lemma latest_of_Some:
  assumes "latest_of fs k = Some f"
  shows "file_id f = k \<and> releaseType f = 1 \<and> f \<in> set fs"
  using fold_latest_Some[OF assms[unfolded latest_of_def]] by auto

lemma ordered_loop_props:
  assumes "\<forall>k f. latest k = Some f \<longrightarrow> file_id f = k"
  shows "\<exists>new. ordered_loop latest seen ordered idxs = ordered @ new
           \<and> subseq (map file_id new) idxs
           \<and> distinct (map file_id new)
           \<and> set (map file_id new) \<inter> seen = {}
           \<and> (\<forall>f\<in>set new. latest (file_id f) = Some f)"
proof (induction idxs arbitrary: seen ordered)
  case Nil
  then show ?case by simp
next
  case (Cons fid idxs)
  show ?case
  proof (cases "latest fid")
    case None
    obtain new where new: "ordered_loop latest seen ordered idxs = ordered @ new"
      "subseq (map file_id new) idxs" "distinct (map file_id new)"
      "set (map file_id new) \<inter> seen = {}" "\<forall>f\<in>set new. latest (file_id f) = Some f"
      using Cons.IH[of seen ordered] by blast
    then show ?thesis using None by (intro exI[of _ new]) (simp add: list_emb_Cons)
  next
    case (Some f)
    then have id: "file_id f = fid" using assms by blast
    show ?thesis
    proof (cases "fid \<in> seen")
      case True
      obtain new where new: "ordered_loop latest seen ordered idxs = ordered @ new"
        "subseq (map file_id new) idxs" "distinct (map file_id new)"
        "set (map file_id new) \<inter> seen = {}" "\<forall>f\<in>set new. latest (file_id f) = Some f"
        using Cons.IH[of seen ordered] by blast
      then show ?thesis using Some True by (intro exI[of _ new]) (simp add: list_emb_Cons)
    next
      case False
      obtain new where new:
        "ordered_loop latest (insert fid seen) (ordered @ [f]) idxs = (ordered @ [f]) @ new"
        "subseq (map file_id new) idxs" "distinct (map file_id new)"
        "set (map file_id new) \<inter> insert fid seen = {}"
        "\<forall>f\<in>set new. latest (file_id f) = Some f"
        using Cons.IH[of "insert fid seen" "ordered @ [f]"] by blast
      have "fid \<notin> set (map file_id new)" using new(4) by auto
      moreover have "set (map file_id new) \<inter> seen = {}" using new(4) by auto
      moreover have "latest (file_id f) = Some f" using Some id by simp
      ultimately show ?thesis using Some False new(1,2,3,5) id
        by (intro exI[of _ "f # new"]) simp
    qed
  qed
qed

text \<open>
  Claim C8. When the mod descriptor is fetched, every selected build is one of the
  listed latest files with release type 1 (Release), no file id occurs twice among
  the selected builds, and their ids follow the order of \<^verbatim>\<open>latestFilesIndexes\<close>.
\<close>

theorem latest_files_release_distinct_ordered:
  assumes "get_latest_files r = Inr files"
  shows "(\<forall>f\<in>set files. releaseType f = 1 \<and> f \<in> set (latestFiles (mod_body r)))
         \<and> distinct (map file_id files)
         \<and> subseq (map file_id files) (latestFilesIndexes (mod_body r))"
proof -
  let ?latest = "latest_of (latestFiles (mod_body r))"
  have files: "files = ordered_loop ?latest {} [] (latestFilesIndexes (mod_body r))"
    using assms by (auto simp: get_latest_files_def split: sum.splits)
  have "\<forall>k f. ?latest k = Some f \<longrightarrow> file_id f = k"
    using latest_of_Some by blast
  then obtain new where new:
    "ordered_loop ?latest {} [] (latestFilesIndexes (mod_body r)) = [] @ new"
    "subseq (map file_id new) (latestFilesIndexes (mod_body r))"
    "distinct (map file_id new)"
    "\<forall>f\<in>set new. ?latest (file_id f) = Some f"
    using ordered_loop_props[of ?latest "{}" "[]" "latestFilesIndexes (mod_body r)"] by blast
  have eq: "files = new" using files new(1) by simp
  have rel: "releaseType f = 1 \<and> f \<in> set (latestFiles (mod_body r))" if "f \<in> set files" for f
  proof -
    have "f \<in> set new" using that eq by simp
    then have "?latest (file_id f) = Some f" using new(4) by blast
    then show ?thesis using latest_of_Some by blast
  qed
  show ?thesis
  proof (intro conjI ballI)
    fix f assume "f \<in> set files"
    then show "releaseType f = 1" "f \<in> set (latestFiles (mod_body r))"
      using rel by blast+
  next
    show "distinct (map file_id files)" unfolding eq by (rule new(3))
  next
    show "subseq (map file_id files) (latestFilesIndexes (mod_body r))"
      unfolding eq by (rule new(2))
  qed
qed

theorem latest_files_release_distinct_ordered_witness:
  "get_latest_files example_mod = Inr [example_file 3 1 [], example_file 1 1 []]
   \<and> releaseType (example_file 3 1 []) = 1 \<and> releaseType (example_file 1 1 []) = 1
   \<and> distinct (map file_id [example_file 3 1 [], example_file 1 1 []])
   \<and> subseq (map file_id [example_file 3 1 [], example_file 1 1 []])
         (latestFilesIndexes (mod_body example_mod))"
proof -
  have h: "get_latest_files example_mod = Inr [example_file 3 1 [], example_file 1 1 []]"
    by (simp add: get_latest_files_def raise_for_status_def latest_of_def example_mod_def
        example_file_def)
  show ?thesis using h latest_files_release_distinct_ordered[OF h] by simp
qed

section \<open>Finding or creating the release: requests sent\<close>

text \<open>
  Claim C9. With a repository identifier of the form owner/name, the creation
  request is sent exactly when the lookup by tag answers 404, and then once, after
  the lookup. When the lookup answers without an error status (below 400, which is
  what \<^verbatim>\<open>raise_for_status\<close> accepts), only the lookup is sent and the result is the
  upload target of the release found. Every other error status of the lookup
  (400 to 599 except 404) ends the call with \<^verbatim>\<open>HTTPError\<close>, and nothing is created.
\<close>

theorem release_created_iff_lookup_404:
  assumes "CHR ''/'' \<in> set repo"
  shows "snd (get_or_create_release gh repo tag body_md) =
           (if status_code (gh_get gh (lookup_url repo tag)) = 404
            then [Get (lookup_url repo tag),
                  Post (releases_url repo)
                    \<lparr>tag_name = tag, release_name = tag, release_body = body_md,
                     draft = False, prerelease = False\<rparr>]
            else [Get (lookup_url repo tag)])
         \<and> (status_code (gh_get gh (lookup_url repo tag)) < 400 \<longrightarrow>
              fst (get_or_create_release gh repo tag body_md) =
                (case upload_url (gh_get gh (lookup_url repo tag)) of
                   None \<Rightarrow> Inl KeyError
                 | Some u \<Rightarrow> Inr (takeWhile (\<lambda>c. c \<noteq> CHR ''{'') u)))
         \<and> (400 \<le> status_code (gh_get gh (lookup_url repo tag))
              \<and> status_code (gh_get gh (lookup_url repo tag)) < 600
              \<and> status_code (gh_get gh (lookup_url repo tag)) \<noteq> 404 \<longrightarrow>
              fst (get_or_create_release gh repo tag body_md) = Inl HTTPError)"
  using assms
  by (simp add: get_or_create_release_def Let_def release_target_def raise_for_status_def)

theorem release_created_iff_lookup_404_witness:
  "CHR ''/'' \<in> set ''owner/addon''
   \<and> get_or_create_release example_github ''owner/addon'' ''v2026.11.04.12.00'' ''notes'' =
       (Inr ''https://uploads.example.invalid/1/assets'',
        [Get ''https://api.github.com/repos/owner/addon/releases/tags/v2026.11.04.12.00''])"
proof -
  have h: "CHR ''/'' \<in> set ''owner/addon''" by simp
  show ?thesis
    using h release_created_iff_lookup_404[OF h, of example_github "''v2026.11.04.12.00''" "''notes''"]
    by (simp add: example_github_def lookup_url_def releases_url_def GH_API_def prod_eq_iff)
qed

section \<open>Flavor resolution: calls of the external classifier\<close>

lemma bash_each_calls: "snd (bash_each w k ivs) \<le> k + length ivs"
proof (induction ivs arbitrary: k)
  case Nil
  then show ?case by simp
next
  case (Cons iv ivs)
  show ?case
  proof (cases "bash_toc_to_type (w k) iv")
    case (Inl e)
    then show ?thesis by simp
  next
    case (Inr s)
    obtain r k' where r: "bash_each w (Suc k) ivs = (r, k')" by (cases "bash_each w (Suc k) ivs")
    then have "k' \<le> Suc k + length ivs" using Cons.IH[of "Suc k"] by simp
    then show ?thesis using Inr r by (cases r) simp_all
  qed
qed

lemma bash_each_calls_lower: "ivs \<noteq> [] \<Longrightarrow> k < snd (bash_each w k ivs)"
proof (induction ivs arbitrary: k)
  case Nil
  then show ?case by simp
next
  case (Cons iv ivs)
  show ?case
  proof (cases "bash_toc_to_type (w k) iv")
    case (Inl e)
    then show ?thesis by simp
  next
    case (Inr s)
    obtain r k' where r: "bash_each w (Suc k) ivs = (r, k')" by (cases "bash_each w (Suc k) ivs")
    have "Suc k \<le> k'"
    proof (cases "ivs = []")
      case True
      then show ?thesis using r by simp
    next
      case False
      then show ?thesis using Cons.IH[of "Suc k"] r by simp
    qed
    then show ?thesis using Inr r by (cases r) simp_all
  qed
qed

lemma bash_each_Inr:
  "fst (bash_each w k ivs) = Inr ss \<Longrightarrow>
     length ss = length ivs \<and> snd (bash_each w k ivs) = k + length ivs
     \<and> (\<forall>i<length ivs. bash_toc_to_type (w (k + i)) (ivs ! i) = Inr (ss ! i))"
proof (induction ivs arbitrary: k ss)
  case Nil
  then show ?case by simp
next
  case (Cons iv ivs)
  show ?case
  proof (cases "bash_toc_to_type (w k) iv")
    case (Inl e)
    then show ?thesis using Cons.prems by simp
  next
    case (Inr s)
    obtain r k' where r: "bash_each w (Suc k) ivs = (r, k')" by (cases "bash_each w (Suc k) ivs")
    show ?thesis
    proof (cases r)
      case (Inl e)
      then show ?thesis using Cons.prems Inr r by simp
    next
      case (Inr ss')
      then have ss: "ss = s # ss'" using Cons.prems \<open>bash_toc_to_type (w k) iv = Inr s\<close> r by simp
      have "fst (bash_each w (Suc k) ivs) = Inr ss'" using r Inr by simp
      then have ih: "length ss' = length ivs" "snd (bash_each w (Suc k) ivs) = Suc k + length ivs"
        "\<forall>i<length ivs. bash_toc_to_type (w (Suc k + i)) (ivs ! i) = Inr (ss' ! i)"
        using Cons.IH[of "Suc k" ss'] by auto
      have "bash_toc_to_type (w (k + i)) ((iv # ivs) ! i) = Inr (ss ! i)"
        if "i < length (iv # ivs)" for i
      proof (cases i)
        case 0
        then show ?thesis using \<open>bash_toc_to_type (w k) iv = Inr s\<close> ss by simp
      next
        case (Suc j)
        then show ?thesis using ih(3) that ss by simp
      qed
      then show ?thesis using ih(1,2) ss r Inr \<open>bash_toc_to_type (w k) iv = Inr s\<close> by simp
    qed
  qed
qed

lemma bash_each_Inl:
  "fst (bash_each w k ivs) = Inl e \<Longrightarrow>
     \<exists>j<length ivs. bash_toc_to_type (w (k + j)) (ivs ! j) = Inl e
        \<and> snd (bash_each w k ivs) = Suc (k + j)
        \<and> (\<forall>i<j. \<exists>s. bash_toc_to_type (w (k + i)) (ivs ! i) = Inr s)"
proof (induction ivs arbitrary: k)
  case Nil
  then show ?case by simp
next
  case (Cons iv ivs)
  show ?case
  proof (cases "bash_toc_to_type (w k) iv")
    case (Inl e')
    then have "e' = e" using Cons.prems by simp
    then show ?thesis using Inl by (intro exI[of _ 0]) simp
  next
    case (Inr s)
    obtain r k' where r: "bash_each w (Suc k) ivs = (r, k')" by (cases "bash_each w (Suc k) ivs")
    have "fst (bash_each w (Suc k) ivs) = Inl e"
      using Cons.prems Inr r by (cases r) simp_all
    then obtain j where j: "j < length ivs" "bash_toc_to_type (w (Suc k + j)) (ivs ! j) = Inl e"
      "snd (bash_each w (Suc k) ivs) = Suc (Suc k + j)"
      "\<forall>i<j. \<exists>s. bash_toc_to_type (w (Suc k + i)) (ivs ! i) = Inr s"
      using Cons.IH[of "Suc k"] by blast
    have "\<exists>s. bash_toc_to_type (w (k + i)) ((iv # ivs) ! i) = Inr s" if "i < Suc j" for i
    proof (cases i)
      case 0
      then show ?thesis using Inr by simp
    next
      case (Suc i')
      then show ?thesis using j(4) that by simp
    qed
    moreover have "snd (bash_each w k (iv # ivs)) = Suc (k + Suc j)"
      using j(3) Inr r by (cases r) simp_all
    ultimately show ?thesis using j(1,2) by (intro exI[of _ "Suc j"]) simp
  qed
qed

lemma py_max_Max: "ivals \<noteq> [] \<Longrightarrow> py_max ivals = Inr (Max (set ivals))"
proof (cases ivals)
  case Nil
  assume "ivals \<noteq> []"
  then show ?thesis using Nil by simp
next
  case (Cons y ys)
  have "fold max ys y = Max (set (y # ys))" by (rule Max.set_eq_fold[symmetric])
  then show ?thesis unfolding Cons py_max_def by simp
qed

lemma py_max_Nil: "py_max [] = Inl ValueError"
  by (simp add: py_max_def)

lemma toc_to_type_range:
  "toc_to_type iv \<in> {''classic'', ''bcc'', ''wrath'', ''cata'', ''retail''}"
  by (simp add: toc_to_type_def Let_def)

lemma hd_remdups_single: "set xs = {s} \<Longrightarrow> length (remdups xs) = 1 \<and> hd (remdups xs) = s"
proof -
  assume a: "set xs = {s}"
  have l: "length (remdups xs) = 1" using a by (simp add: length_remdups_card_conv)
  then obtain y where y: "remdups xs = [y]" by (cases "remdups xs") auto
  then have "set xs = {y}" using set_remdups[of xs] by simp
  then show ?thesis using a l y by simp
qed

lemma choose_slug_retail:
  "''retail'' \<in> set slugs \<Longrightarrow> choose_slug w k fb slugs ivals = (Inr [], k)"
  by (simp add: choose_slug_def)

lemma choose_slug_single:
  "''retail'' \<notin> set slugs \<Longrightarrow> length slugs = 1 \<Longrightarrow>
     choose_slug w k fb slugs ivals = (Inr (hd slugs), k)"
  by (simp add: choose_slug_def)

lemma choose_slug_many_builtin:
  "''retail'' \<notin> set slugs \<Longrightarrow> length slugs \<noteq> 1 \<Longrightarrow> ivals \<noteq> [] \<Longrightarrow>
     choose_slug w k True slugs ivals = (Inr (toc_to_type (Max (set ivals))), k)"
  by (simp add: choose_slug_def py_max_Max)

lemma choose_slug_many_external:
  "''retail'' \<notin> set slugs \<Longrightarrow> length slugs \<noteq> 1 \<Longrightarrow> ivals \<noteq> [] \<Longrightarrow>
     choose_slug w k False slugs ivals = (bash_toc_to_type (w k) (Max (set ivals)), Suc k)"
  by (simp add: choose_slug_def py_max_Max)

lemma pick_slug_external:
  assumes "pick_interfaces (sortableGameVersions info) = Inr ivals"
    and "fst (bash_each w k ivals) = Inr ss"
  shows "pick_slug w k info = choose_slug w (k + length ivals) False (remdups ss) ivals"
proof -
  have "snd (bash_each w k ivals) = k + length ivals" using bash_each_Inr[OF assms(2)] by simp
  then have "bash_each w k ivals = (Inr ss, k + length ivals)"
    using assms(2) by (cases "bash_each w k ivals") simp
  then show ?thesis using assms(1) by (simp add: pick_slug_def)
qed

lemma pick_slug_fallback:
  assumes "pick_interfaces (sortableGameVersions info) = Inr ivals"
    and "fst (bash_each w k ivals) = Inl FileNotFoundError"
  shows "pick_slug w k info =
           choose_slug w (snd (bash_each w k ivals)) True (remdups (map toc_to_type ivals)) ivals"
proof -
  obtain k' where "bash_each w k ivals = (Inl FileNotFoundError, k')"
    using assms(2) by (cases "bash_each w k ivals") simp
  then show ?thesis using assms(1) by (simp add: pick_slug_def)
qed

lemma pick_slug_error:
  assumes "pick_interfaces (sortableGameVersions info) = Inr ivals"
    and "fst (bash_each w k ivals) = Inl e" and "e \<noteq> FileNotFoundError"
  shows "pick_slug w k info = (Inl e, snd (bash_each w k ivals))"
proof -
  obtain k' where "bash_each w k ivals = (Inl e, k')"
    using assms(2) by (cases "bash_each w k ivals") simp
  then show ?thesis using assms(1,3) by (simp add: pick_slug_def)
qed

lemma pick_slug_parse_error:
  "pick_interfaces (sortableGameVersions info) = Inl e \<Longrightarrow> pick_slug w k info = (Inl e, k)"
  by (simp add: pick_slug_def)

lemma pick_slug_separator_name:
  "pick_slug w k (example_file 4 1 (example_versions [CHR 0x1F # ''1.15.6''])) = (Inl ValueError, k)"
  by (simp add: pick_slug_def example_file_def example_versions_def pick_interface_def
      py_int_def int_strip_def is_int_space_def is_digit_def)

lemma fallback_nonempty: "fst (bash_each w k ivals) = Inl e \<Longrightarrow> ivals \<noteq> []"
  by (cases ivals) simp_all

lemmas parse_defs = pick_interface_def py_int_def int_strip_def is_int_space_def is_digit_def
  nat_of_digits_def digit_val_def example_versions_def example_file_def

lemma build_interfaces:
  "pick_interfaces (sortableGameVersions build_classic) = Inr [11506]"
  "pick_interfaces (sortableGameVersions build_classic_retail) = Inr [11506, 100000]"
  "pick_interfaces (sortableGameVersions build_classic_bcc) = Inr [11506, 20504]"
  by (simp_all add: build_classic_def build_classic_retail_def build_classic_bcc_def parse_defs)

lemma example_extractions:
  "extract_routine example_script = Inr (take 3 (tl example_script))"
  "extract_routine example_script_unclosed = Inl FunctionExtractionError"
  "extract_routine example_script_without_routine = Inr []"
  by (simp_all add: extract_routine_def example_script_def example_script_unclosed_def
      example_script_without_routine_def opens_toc_to_type_def startswith_def count_char_def
      is_space_def)

lemma toc_more: "toc_to_type 100000 = ''retail''" "toc_to_type 11506 = ''classic''" "toc_to_type 20504 = ''bcc''"
  by (simp_all add: toc_to_type_def str_int_def str_nat.simps startswith_def digit_char_def char_of_eq_iff)

lemma bash_examples:
  "bash_toc_to_type (world_no_interpreter k) iv = Inl FileNotFoundError"
  "bash_toc_to_type (world_answering a k) iv = Inr (py_strip (a k @ [CHR 0x0A]))"
  "bash_toc_to_type (world_unclosed k) iv = Inl FunctionExtractionError"
  "bash_toc_to_type (world_exit_nonzero k) iv = Inl CalledProcessError"
  by (simp_all add: bash_toc_to_type_def world_no_interpreter_def world_answering_def
      world_unclosed_def world_exit_nonzero_def example_extractions)

lemma strip_examples:
  "py_strip (''classic'' @ [CHR 0x0A]) = ''classic''"
  "py_strip (''retail'' @ [CHR 0x0A]) = ''retail''"
  "py_strip (''bcc'' @ [CHR 0x0A]) = ''bcc''"
  "py_strip (''wrath'' @ [CHR 0x0A]) = ''wrath''"
  by (simp_all add: py_strip_def is_space_def)

lemma choose_slug_calls: "k \<le> snd (choose_slug w k fb slugs ivals)"
  by (simp add: choose_slug_def split: sum.splits)

lemma choose_slug_builtin_calls: "snd (choose_slug w k True slugs ivals) = k"
  by (simp add: choose_slug_def split: sum.splits)

lemma choose_slug_builtin_world:
  "fst (choose_slug w k True slugs ivals) = fst (choose_slug w' k' True slugs ivals)"
  by (simp add: choose_slug_def split: sum.splits)

lemma fallback_result:
  assumes "pick_interfaces (sortableGameVersions info) = Inr ivals"
    and "fst (bash_each w k ivals) = Inl FileNotFoundError"
  shows "\<exists>s. fst (pick_slug w k info) = Inr s
           \<and> (s = [] \<or> (s \<in> toc_to_type ` set ivals \<and> s \<noteq> ''retail''))"
proof -
  let ?slugs = "remdups (map toc_to_type ivals)"
  have p: "pick_slug w k info = choose_slug w (snd (bash_each w k ivals)) True ?slugs ivals"
    using assms by (rule pick_slug_fallback)
  have ne: "ivals \<noteq> []" using assms(2) by (rule fallback_nonempty)
  show ?thesis
  proof (cases "''retail'' \<in> set ?slugs")
    case True
    then show ?thesis unfolding p by (simp add: choose_slug_retail)
  next
    case False
    note nr = False
    show ?thesis
    proof (cases "length ?slugs = 1")
      case True
      then obtain y where y: "?slugs = [y]" by (cases ?slugs) auto
      then have ys: "y \<in> set ?slugs" by simp
      then have "y \<in> toc_to_type ` set ivals" by simp
      moreover have "y \<noteq> ''retail''" using ys nr by blast
      ultimately have "y \<in> toc_to_type ` set ivals \<and> y \<noteq> ''retail''" by blast
      moreover have "fst (pick_slug w k info) = Inr y"
        unfolding p choose_slug_single[OF nr True] using y by simp
      ultimately show ?thesis by blast
    next
      case False
      have "Max (set ivals) \<in> set ivals" using ne by (intro Max_in) simp_all
      then have "toc_to_type (Max (set ivals)) \<in> toc_to_type ` set ivals" by (rule imageI)
      moreover have "''retail'' \<notin> toc_to_type ` set ivals" using nr by simp
      then have "toc_to_type (Max (set ivals)) \<noteq> ''retail''"
        using \<open>Max (set ivals) \<in> set ivals\<close> by (metis imageI)
      moreover have "fst (pick_slug w k info) = Inr (toc_to_type (Max (set ivals)))"
        unfolding p choose_slug_many_builtin[OF nr False ne] by simp
      ultimately show ?thesis by blast
    qed
  qed
qed

lemma extract_loop_no_opening:
  "\<forall>l\<in>set lines. \<not> opens_toc_to_type l \<Longrightarrow>
     extract_loop False brace_count func_body lines = (brace_count, func_body)"
  by (induction lines) simp_all

lemma missing_routine_no_error:
  "\<forall>l\<in>set lines. \<not> opens_toc_to_type l \<Longrightarrow> extract_routine lines = Inr []"
  by (simp add: extract_routine_def extract_loop_no_opening)

lemma extraction_error_iff:
  "extract_routine lines = Inl e \<longleftrightarrow>
     e = FunctionExtractionError \<and> fst (extract_loop False 0 [] lines) \<noteq> 0"
  by (cases "extract_loop False 0 [] lines") (auto simp: extract_routine_def)

lemma bash_toc_to_type_errors:
  "bash_toc_to_type h iv = Inl e \<Longrightarrow>
     e = FileNotFoundError \<and> (release_sh h = None \<or> interpreter h = None)
     \<or> e = FunctionExtractionError
          \<and> (\<exists>lines. release_sh h = Some lines \<and> extract_routine lines = Inl e)
     \<or> e = CalledProcessError
          \<and> (\<exists>lines body run. release_sh h = Some lines \<and> extract_routine lines = Inr body
                \<and> interpreter h = Some run \<and> fst (run (make_script body iv)) \<noteq> 0)"
  by (auto simp: bash_toc_to_type_def extraction_error_iff
      split: option.splits sum.splits prod.splits if_splits)

section \<open>Flavor resolution: the claims\<close>

text \<open>
  Claim C3. When every interface number of a build is classified, by the external
  classifier or, after the fallback, by the built-in one, and one of the slugs is
  retail, the resolution returns the empty slug, whatever the other slugs are.
\<close>

theorem retail_gives_empty_slug:
  assumes "pick_interfaces (sortableGameVersions info) = Inr ivals"
  shows "(fst (bash_each w k ivals) = Inr ss \<and> ''retail'' \<in> set ss \<longrightarrow>
            fst (pick_slug w k info) = Inr [])
       \<and> (fst (bash_each w k ivals) = Inl FileNotFoundError
            \<and> ''retail'' \<in> toc_to_type ` set ivals \<longrightarrow>
            fst (pick_slug w k info) = Inr [])"
proof (intro conjI impI)
  assume a: "fst (bash_each w k ivals) = Inr ss \<and> ''retail'' \<in> set ss"
  then have "pick_slug w k info = choose_slug w (k + length ivals) False (remdups ss) ivals"
    using assms by (intro pick_slug_external) simp_all
  then show "fst (pick_slug w k info) = Inr []" using a by (simp add: choose_slug_retail)
next
  assume a: "fst (bash_each w k ivals) = Inl FileNotFoundError
    \<and> ''retail'' \<in> toc_to_type ` set ivals"
  then have "pick_slug w k info =
      choose_slug w (snd (bash_each w k ivals)) True (remdups (map toc_to_type ivals)) ivals"
    using assms by (intro pick_slug_fallback) simp_all
  then show "fst (pick_slug w k info) = Inr []" using a by (simp add: choose_slug_retail)
qed

theorem retail_gives_empty_slug_witness:
  "pick_interfaces (sortableGameVersions build_classic_retail) = Inr [11506, 100000]
   \<and> fst (bash_each (world_answering (\<lambda>k. if k = 0 then ''classic'' else ''retail'')) 0
            [11506, 100000]) = Inr [''classic'', ''retail'']
   \<and> fst (pick_slug (world_answering (\<lambda>k. if k = 0 then ''classic'' else ''retail'')) 0
            build_classic_retail) = Inr []
   \<and> fst (bash_each world_no_interpreter 0 [11506, 100000]) = Inl FileNotFoundError
   \<and> toc_to_type 100000 = ''retail''
   \<and> fst (pick_slug world_no_interpreter 0 build_classic_retail) = Inr []"
proof -
  let ?w = "world_answering (\<lambda>k. if k = 0 then ''classic'' else ''retail'')"
  have h1: "pick_interfaces (sortableGameVersions build_classic_retail) = Inr [11506, 100000]"
    by (rule build_interfaces)
  have h2: "fst (bash_each ?w 0 [11506, 100000]) = Inr [''classic'', ''retail'']"
    by (simp add: bash_examples py_strip_def is_space_def)
  have h3: "fst (bash_each world_no_interpreter 0 [11506, 100000]) = Inl FileNotFoundError"
    by (simp add: bash_examples)
  have h4: "toc_to_type 100000 = ''retail''" by (rule toc_more)
  have r: "''retail'' \<in> set [''classic'', ''retail'']" by simp
  have i: "''retail'' \<in> toc_to_type ` set [11506, 100000]" using h4 by simp
  have h5: "fst (pick_slug ?w 0 build_classic_retail) = Inr []"
    using retail_gives_empty_slug[OF h1, of ?w 0 "[''classic'', ''retail'']"] h2 r by blast
  have h6: "fst (pick_slug world_no_interpreter 0 build_classic_retail) = Inr []"
    using retail_gives_empty_slug[OF h1, of world_no_interpreter 0] h3 i by blast
  show ?thesis by (intro conjI h1 h2 h3 h4 h5 h6)
qed

text \<open>
  Claim C4. When the slugs of a build are two or more and none is retail, the
  resolution returns the classification of the greatest interface number: one more
  call of the external classifier on it, or the built-in classifier on it after the
  fallback. When all interface numbers have one slug and it is not retail, that slug
  is returned.
\<close>

theorem max_interface_decides_flavor:
  assumes "pick_interfaces (sortableGameVersions info) = Inr ivals"
  shows "(fst (bash_each w k ivals) = Inr ss \<and> ''retail'' \<notin> set ss \<and> 2 \<le> card (set ss) \<longrightarrow>
            fst (pick_slug w k info) =
              bash_toc_to_type (w (k + length ivals)) (Max (set ivals)))
       \<and> (fst (bash_each w k ivals) = Inl FileNotFoundError
            \<and> ''retail'' \<notin> toc_to_type ` set ivals \<and> 2 \<le> card (toc_to_type ` set ivals) \<longrightarrow>
            fst (pick_slug w k info) = Inr (toc_to_type (Max (set ivals))))
       \<and> (fst (bash_each w k ivals) = Inr ss \<and> set ss = {s} \<and> s \<noteq> ''retail'' \<longrightarrow>
            fst (pick_slug w k info) = Inr s)
       \<and> (fst (bash_each w k ivals) = Inl FileNotFoundError
            \<and> toc_to_type ` set ivals = {s} \<and> s \<noteq> ''retail'' \<longrightarrow>
            fst (pick_slug w k info) = Inr s)"
proof (intro conjI impI)
  assume a: "fst (bash_each w k ivals) = Inr ss \<and> ''retail'' \<notin> set ss \<and> 2 \<le> card (set ss)"
  then have p: "pick_slug w k info = choose_slug w (k + length ivals) False (remdups ss) ivals"
    using assms by (intro pick_slug_external) simp_all
  have r: "''retail'' \<notin> set (remdups ss)" using a by simp
  have c: "2 \<le> card (set ss)" using a by blast
  have e: "fst (bash_each w k ivals) = Inr ss" using a by blast
  have "length ss = length ivals" using bash_each_Inr[OF e] by blast
  moreover have "ss \<noteq> []" using c by (cases ss) simp_all
  ultimately have ne: "ivals \<noteq> []" by (cases ivals) simp_all
  have "length (remdups ss) = card (set ss)" by (rule length_remdups_card_conv)
  then have l: "length (remdups ss) \<noteq> 1" using c by linarith
  show "fst (pick_slug w k info) = bash_toc_to_type (w (k + length ivals)) (Max (set ivals))"
    unfolding p choose_slug_many_external[OF r l ne] by simp
next
  assume a: "fst (bash_each w k ivals) = Inl FileNotFoundError
    \<and> ''retail'' \<notin> toc_to_type ` set ivals \<and> 2 \<le> card (toc_to_type ` set ivals)"
  then have p: "pick_slug w k info =
      choose_slug w (snd (bash_each w k ivals)) True (remdups (map toc_to_type ivals)) ivals"
    using assms by (intro pick_slug_fallback) simp_all
  have ne: "ivals \<noteq> []" using a fallback_nonempty by blast
  have r: "''retail'' \<notin> set (remdups (map toc_to_type ivals))" using a by simp
  have c: "2 \<le> card (set (map toc_to_type ivals))" using a by simp
  have "length (remdups (map toc_to_type ivals)) = card (set (map toc_to_type ivals))"
    by (rule length_remdups_card_conv)
  then have l: "length (remdups (map toc_to_type ivals)) \<noteq> 1" using c by linarith
  show "fst (pick_slug w k info) = Inr (toc_to_type (Max (set ivals)))"
    unfolding p choose_slug_many_builtin[OF r l ne] by simp
next
  assume a: "fst (bash_each w k ivals) = Inr ss \<and> set ss = {s} \<and> s \<noteq> ''retail''"
  then have p: "pick_slug w k info = choose_slug w (k + length ivals) False (remdups ss) ivals"
    using assms by (intro pick_slug_external) simp_all
  have r: "''retail'' \<notin> set (remdups ss)" using a by auto
  have "set ss = {s}" using a by blast
  then have h: "length (remdups ss) = 1 \<and> hd (remdups ss) = s" by (rule hd_remdups_single)
  then have l: "length (remdups ss) = 1" by blast
  show "fst (pick_slug w k info) = Inr s"
    unfolding p choose_slug_single[OF r l] using h by simp
next
  assume a: "fst (bash_each w k ivals) = Inl FileNotFoundError
    \<and> toc_to_type ` set ivals = {s} \<and> s \<noteq> ''retail''"
  then have p: "pick_slug w k info =
      choose_slug w (snd (bash_each w k ivals)) True (remdups (map toc_to_type ivals)) ivals"
    using assms by (intro pick_slug_fallback) simp_all
  have st: "set (map toc_to_type ivals) = {s}" using a by simp
  then have r: "''retail'' \<notin> set (remdups (map toc_to_type ivals))" using a by auto
  have h: "length (remdups (map toc_to_type ivals)) = 1 \<and> hd (remdups (map toc_to_type ivals)) = s"
    using st by (rule hd_remdups_single)
  then have l: "length (remdups (map toc_to_type ivals)) = 1" by blast
  show "fst (pick_slug w k info) = Inr s"
    unfolding p choose_slug_single[OF r l] using h by simp
qed

theorem max_interface_decides_flavor_witness:
  "pick_interfaces (sortableGameVersions build_classic_bcc) = Inr [11506, 20504]
   \<and> fst (bash_each (world_answering (\<lambda>k. if k = 0 then ''classic'' else ''bcc'')) 0
            [11506, 20504]) = Inr [''classic'', ''bcc'']
   \<and> fst (pick_slug (world_answering (\<lambda>k. if k = 0 then ''classic'' else ''bcc'')) 0
            build_classic_bcc) = Inr ''bcc''
   \<and> fst (bash_each world_no_interpreter 0 [11506, 20504]) = Inl FileNotFoundError
   \<and> fst (pick_slug world_no_interpreter 0 build_classic_bcc) = Inr (toc_to_type 20504)
   \<and> pick_interfaces (sortableGameVersions build_classic) = Inr [11506]
   \<and> fst (bash_each (world_answering (\<lambda>k. ''wrath'')) 0 [11506]) = Inr [''wrath'']
   \<and> fst (pick_slug (world_answering (\<lambda>k. ''wrath'')) 0 build_classic) = Inr ''wrath''
   \<and> fst (bash_each world_no_interpreter 0 [11506]) = Inl FileNotFoundError
   \<and> fst (pick_slug world_no_interpreter 0 build_classic) = Inr ''classic''"
proof -
  let ?w = "world_answering (\<lambda>k. if k = 0 then ''classic'' else ''bcc'')"
  let ?v = "world_answering (\<lambda>k. ''wrath'')"
  have h1: "pick_interfaces (sortableGameVersions build_classic_bcc) = Inr [11506, 20504]"
    by (rule build_interfaces)
  have h2: "fst (bash_each ?w 0 [11506, 20504]) = Inr [''classic'', ''bcc'']"
    by (simp add: bash_examples py_strip_def is_space_def)
  have c2: "''retail'' \<notin> set [''classic'', ''bcc''] \<and> 2 \<le> card (set [''classic'', ''bcc''])"
    by simp
  have m: "Max (set [11506, 20504 :: int]) = 20504" by simp
  have "fst (pick_slug ?w 0 build_classic_bcc)
          = bash_toc_to_type (?w (0 + length [11506, 20504 :: int])) (Max (set [11506, 20504]))"
    using max_interface_decides_flavor[OF h1, of ?w 0 "[''classic'', ''bcc'']"] h2 c2 by blast
  then have h3: "fst (pick_slug ?w 0 build_classic_bcc) = Inr ''bcc''"
    by (simp add: bash_examples py_strip_def is_space_def)
  have h4: "fst (bash_each world_no_interpreter 0 [11506, 20504]) = Inl FileNotFoundError"
    by (simp add: bash_examples)
  have c4: "''retail'' \<notin> toc_to_type ` set [11506, 20504]
            \<and> 2 \<le> card (toc_to_type ` set [11506, 20504])"
    by (simp add: toc_more)
  have "fst (pick_slug world_no_interpreter 0 build_classic_bcc)
          = Inr (toc_to_type (Max (set [11506, 20504])))"
    using max_interface_decides_flavor[OF h1, of world_no_interpreter 0] h4 c4 by blast
  then have h5: "fst (pick_slug world_no_interpreter 0 build_classic_bcc) = Inr (toc_to_type 20504)"
    by (simp only: m)
  have h6: "pick_interfaces (sortableGameVersions build_classic) = Inr [11506]"
    by (rule build_interfaces)
  have h7: "fst (bash_each ?v 0 [11506]) = Inr [''wrath'']"
    by (simp add: bash_examples py_strip_def is_space_def)
  have c7: "set [''wrath''] = {''wrath''} \<and> ''wrath'' \<noteq> ''retail''" by simp
  have h8: "fst (pick_slug ?v 0 build_classic) = Inr ''wrath''"
    using max_interface_decides_flavor[OF h6, of ?v 0 "[''wrath'']" "''wrath''"] h7 c7 by blast
  have h9: "fst (bash_each world_no_interpreter 0 [11506]) = Inl FileNotFoundError"
    by (simp add: bash_examples)
  have c9: "toc_to_type ` set [11506] = {''classic''} \<and> ''classic'' \<noteq> ''retail''"
    by (simp add: toc_more)
  have h10: "fst (pick_slug world_no_interpreter 0 build_classic) = Inr ''classic''"
    using max_interface_decides_flavor[OF h6, of world_no_interpreter 0 _ "''classic''"] h9 c9
    by blast
  show ?thesis by (intro conjI h1 h2 h3 h4 h5 h6 h7 h8 h9 h10)
qed

text \<open>
  Claim C10. After the fallback the resolution returns a slug, and it is the empty
  slug or one of classic, bcc, wrath and cata: never retail.
\<close>

theorem builtin_never_returns_retail:
  assumes "pick_interfaces (sortableGameVersions info) = Inr ivals"
    and "fst (bash_each w k ivals) = Inl FileNotFoundError"
  shows "\<exists>s. fst (pick_slug w k info) = Inr s
           \<and> s \<in> {[], ''classic'', ''bcc'', ''wrath'', ''cata''}"
proof -
  obtain s where s: "fst (pick_slug w k info) = Inr s"
    "s = [] \<or> (s \<in> toc_to_type ` set ivals \<and> s \<noteq> ''retail'')"
    using fallback_result[OF assms] by blast
  have "s \<in> {[], ''classic'', ''bcc'', ''wrath'', ''cata''}"
  proof (cases "s = []")
    case True
    then show ?thesis by simp
  next
    case False
    then obtain iv where "s = toc_to_type iv" "s \<noteq> ''retail''" using s(2) by blast
    then show ?thesis using toc_to_type_range[of iv] by auto
  qed
  then show ?thesis using s(1) by blast
qed

theorem builtin_never_returns_retail_witness:
  "pick_interfaces (sortableGameVersions build_classic_bcc) = Inr [11506, 20504]
   \<and> fst (bash_each world_no_interpreter 0 [11506, 20504]) = Inl FileNotFoundError
   \<and> fst (pick_slug world_no_interpreter 0 build_classic_bcc) = Inr ''bcc''"
proof -
  have h1: "pick_interfaces (sortableGameVersions build_classic_bcc) = Inr [11506, 20504]"
    by (rule build_interfaces)
  have h2: "fst (bash_each world_no_interpreter 0 [11506, 20504]) = Inl FileNotFoundError"
    by (simp add: bash_examples)
  have h3: "fst (pick_slug world_no_interpreter 0 build_classic_bcc) = Inr ''bcc''"
    by (simp add: pick_slug_def build_interfaces bash_examples choose_slug_def toc_more
        py_max_def)
  show ?thesis using builtin_never_returns_retail[OF h1 h2] by (intro conjI h1 h2 h3)
qed

text \<open>
  Claim C1, as amended. While the slugs of a build are computed, a
  \<^verbatim>\<open>FileNotFoundError\<close> of the external classifier (the local copy of the script is
  absent, or the interpreter is not present) is recovered inside the resolution:
  the result is a slug of the built-in classifier or the empty slug. Every other
  failure of the external classifier, that is the extraction error and the exit
  with a code other than 0, leaves the resolution as that error.
\<close>

theorem only_missing_file_recovered:
  assumes "pick_interfaces (sortableGameVersions info) = Inr ivals"
  shows "(fst (bash_each w k ivals) = Inl FileNotFoundError \<longrightarrow>
            (\<exists>s. fst (pick_slug w k info) = Inr s \<and> (s = [] \<or> s \<in> toc_to_type ` set ivals)))
       \<and> (fst (bash_each w k ivals) = Inl e \<and> e \<noteq> FileNotFoundError \<longrightarrow>
            fst (pick_slug w k info) = Inl e)"
proof (intro conjI impI)
  assume "fst (bash_each w k ivals) = Inl FileNotFoundError"
  then show "\<exists>s. fst (pick_slug w k info) = Inr s \<and> (s = [] \<or> s \<in> toc_to_type ` set ivals)"
    using fallback_result[OF assms] by blast
next
  assume a: "fst (bash_each w k ivals) = Inl e \<and> e \<noteq> FileNotFoundError"
  then have "pick_slug w k info = (Inl e, snd (bash_each w k ivals))"
    using assms by (intro pick_slug_error) simp_all
  then show "fst (pick_slug w k info) = Inl e" by simp
qed

theorem only_missing_file_recovered_witness:
  "pick_interfaces (sortableGameVersions build_classic) = Inr [11506]
   \<and> fst (bash_each world_no_interpreter 0 [11506]) = Inl FileNotFoundError
   \<and> fst (pick_slug world_no_interpreter 0 build_classic) = Inr ''classic''
   \<and> fst (bash_each world_exit_nonzero 0 [11506]) = Inl CalledProcessError
   \<and> fst (pick_slug world_exit_nonzero 0 build_classic) = Inl CalledProcessError"
proof -
  have h1: "pick_interfaces (sortableGameVersions build_classic) = Inr [11506]"
    by (rule build_interfaces)
  have h2: "fst (bash_each world_no_interpreter 0 [11506]) = Inl FileNotFoundError"
    by (simp add: bash_examples)
  have h3: "fst (bash_each world_exit_nonzero 0 [11506]) = Inl CalledProcessError"
    by (simp add: bash_examples)
  have "\<exists>s. fst (pick_slug world_no_interpreter 0 build_classic) = Inr s
          \<and> (s = [] \<or> s \<in> toc_to_type ` set [11506])"
    using only_missing_file_recovered[OF h1, of world_no_interpreter 0 CalledProcessError] h2
    by blast
  moreover have "fst (pick_slug world_no_interpreter 0 build_classic) \<noteq> Inr []"
    by (simp add: pick_slug_def build_interfaces bash_examples choose_slug_def toc_more)
  ultimately have h4: "fst (pick_slug world_no_interpreter 0 build_classic) = Inr ''classic''"
    by (auto simp: toc_more)
  have h5: "fst (pick_slug world_exit_nonzero 0 build_classic) = Inl CalledProcessError"
    using only_missing_file_recovered[OF h1, of world_exit_nonzero 0 CalledProcessError] h3
    by blast
  show ?thesis by (intro conjI h1 h2 h3 h4 h5)
qed

text \<open>The extraction error and the exit with code 1 leave the resolution.\<close>

theorem classifier_errors_propagate:
  "fst (pick_slug world_unclosed 0 build_classic) = Inl FunctionExtractionError
   \<and> fst (pick_slug world_exit_nonzero 0 build_classic) = Inl CalledProcessError"
  by (simp add: pick_slug_def build_interfaces bash_examples)

text \<open>
  Claim C2, as amended. Once the fallback is triggered in the resolution of a build,
  the rest of that resolution does not call the external classifier again, and its
  result depends on the interface numbers alone, whatever the world is. The
  fallback holds for that resolution only: the resolution of every build with at
  least one game version calls the external classifier anew.
\<close>

theorem fallback_kept_within_resolution:
  assumes "pick_interfaces (sortableGameVersions info) = Inr ivals"
  shows "(fst (bash_each w k ivals) = Inl FileNotFoundError \<longrightarrow>
            snd (pick_slug w k info) = snd (bash_each w k ivals)
            \<and> (\<forall>w' k'. fst (bash_each w' k' ivals) = Inl FileNotFoundError \<longrightarrow>
                  fst (pick_slug w' k' info) = fst (pick_slug w k info)))
       \<and> (ivals \<noteq> [] \<longrightarrow> k < snd (pick_slug w k info))"
proof (intro conjI impI allI)
  assume a: "fst (bash_each w k ivals) = Inl FileNotFoundError"
  show "snd (pick_slug w k info) = snd (bash_each w k ivals)"
    unfolding pick_slug_fallback[OF assms a] by (rule choose_slug_builtin_calls)
  fix w' k'
  assume b: "fst (bash_each w' k' ivals) = Inl FileNotFoundError"
  show "fst (pick_slug w' k' info) = fst (pick_slug w k info)"
    unfolding pick_slug_fallback[OF assms a] pick_slug_fallback[OF assms b]
    by (rule choose_slug_builtin_world)
next
  assume ne: "ivals \<noteq> []"
  have lower: "k < snd (bash_each w k ivals)" using ne by (rule bash_each_calls_lower)
  obtain r k1 where r: "bash_each w k ivals = (r, k1)" by (cases "bash_each w k ivals")
  have "k1 \<le> snd (pick_slug w k info)"
  proof (cases r)
    case (Inl e)
    then show ?thesis using assms r
      by (simp add: pick_slug_def choose_slug_calls)
  next
    case (Inr ss)
    then show ?thesis using assms r
      by (simp add: pick_slug_def choose_slug_calls)
  qed
  then show "k < snd (pick_slug w k info)" using lower r by simp
qed

theorem fallback_kept_within_resolution_witness:
  "pick_interfaces (sortableGameVersions build_classic_bcc) = Inr [11506, 20504]
   \<and> fst (bash_each world_no_interpreter 0 [11506, 20504]) = Inl FileNotFoundError
   \<and> snd (pick_slug world_no_interpreter 0 build_classic_bcc) = 1
   \<and> fst (pick_slug world_late_interpreter 0 build_classic_bcc)
       = fst (pick_slug world_no_interpreter 0 build_classic_bcc)
   \<and> 0 < snd (pick_slug world_no_interpreter 0 build_classic_bcc)"
proof -
  have h1: "pick_interfaces (sortableGameVersions build_classic_bcc) = Inr [11506, 20504]"
    by (rule build_interfaces)
  have h2: "fst (bash_each world_no_interpreter 0 [11506, 20504]) = Inl FileNotFoundError"
    by (simp add: bash_examples)
  have h3: "fst (bash_each world_late_interpreter 0 [11506, 20504]) = Inl FileNotFoundError"
    by (simp add: bash_examples world_late_interpreter_def)
  note t = fallback_kept_within_resolution[OF h1, of world_no_interpreter 0]
  have c: "snd (bash_each world_no_interpreter 0 [11506, 20504]) = 1"
    by (simp add: bash_examples)
  have h4: "snd (pick_slug world_no_interpreter 0 build_classic_bcc) = 1"
    using t h2 c by simp
  have h5: "fst (pick_slug world_late_interpreter 0 build_classic_bcc)
       = fst (pick_slug world_no_interpreter 0 build_classic_bcc)"
    using t h2 h3 by blast
  have h6: "0 < snd (pick_slug world_no_interpreter 0 build_classic_bcc)"
    using t by blast
  show ?thesis by (intro conjI h1 h2 h4 h5 h6)
qed

text \<open>
  Two resolutions of one run: the first falls back, the second is answered by the
  external classifier, with a slug the built-in classifier does not give.
\<close>

theorem fallback_not_recorded:
  "pick_slug world_late_interpreter 0 build_classic = (Inr ''classic'', 1)
   \<and> pick_slug world_late_interpreter 1 build_classic = (Inr ''wrath'', 2)"
  by (simp add: pick_slug_def build_interfaces bash_examples world_late_interpreter_def
      choose_slug_def toc_more py_strip_def is_space_def)

text \<open>
  Claim C7. The extraction raises exactly when the loop ends with a counter other
  than 0 (\<open>extraction_error_iff\<close>). For a local copy in which no line opens the
  routine the counter stays 0 (\<open>missing_routine_no_error\<close>): the extraction returns
  an empty body without an error, and the script that is run calls a routine it does
  not define.
\<close>

theorem missing_routine_not_reported:
  "extract_routine example_script_without_routine = Inr []
   \<and> bash_toc_to_type
       \<lparr>release_sh = Some example_script_without_routine,
        interpreter = Some (\<lambda>script. (0, [CHR 0x0A]))\<rparr> 11506 = Inr []
   \<and> make_script [] 11506 =
       [''#!/usr/bin/env bash'' @ [CHR 0x0A],
        ''toc_to_type '' @ [CHR 0x22] @ ''11506'' @ [CHR 0x22] @ '' result'' @ [CHR 0x0A],
        ''echo '' @ [CHR 0x22] @ ''$result'' @ [CHR 0x22] @ [CHR 0x0A]]"
  by (simp add: example_extractions bash_toc_to_type_def py_strip_def is_space_def
      make_script_def str_int_def str_nat.simps digit_char_def char_of_eq_iff)

end
